theory Spec2Isabelle
  imports Complex_Main "HOL-Library.Sublist" "HOL-Library.Word" "HOL-Library.Multiset"
begin

section \<open>JavaScript values, objects and JSON serialisation\<close>

text \<open>
  Query filters, pipelines and options are plain JavaScript data, modelled by the type
  \<open>json\<close>. An object is the list of its own enumerable properties in the order in which
  JavaScript enumerates them. Strings are lists of 8-bit characters, read as the code units
  U+0000 to U+00FF of a JavaScript string. Numbers are integers, printed in decimal as
  \<open>JSON.stringify\<close> prints an integer below \<open>10\<^sup>2\<^sup>1\<close>; whatever its value, the text of a
  number contains no \<open>$\<close>, which is all the validation gate looks for.
\<close>

datatype json =
    JNull
  | JBool bool
  | JNum int
  | JStr string
  | JArr "json list"
  | JObj "(string \<times> json) list"

text \<open>JavaScript truthiness, as used by \<open>if (x)\<close> and \<open>!x\<close>.\<close>

fun truthy :: "json \<Rightarrow> bool" where
  "truthy JNull = False"
| "truthy (JBool b) = b"
| "truthy (JNum n) = (n \<noteq> 0)"
| "truthy (JStr s) = (s \<noteq> [])"
| "truthy (JArr xs) = True"
| "truthy (JObj kvs) = True"

text \<open>Lookup and update of an association list in insertion order: \<open>get\<close> and \<open>set\<close> of
  a \<open>Map\<close>, and the own properties of an object; a \<open>set\<close> keeps the position of an existing
  key and appends a new one.\<close>

fun obj_get :: "(string \<times> 'v) list \<Rightarrow> string \<Rightarrow> 'v option" where
  "obj_get [] k = None"
| "obj_get ((k', v) # kvs) k = (if k' = k then Some v else obj_get kvs k)"

fun obj_set :: "(string \<times> 'v) list \<Rightarrow> string \<Rightarrow> 'v \<Rightarrow> (string \<times> 'v) list" where
  "obj_set [] k v = [(k, v)]"
| "obj_set ((k', v') # kvs) k v =
     (if k' = k then (k, v) # kvs else (k', v') # obj_set kvs k v)"

text \<open>
  A plain object created by \<open>{}\<close> differs from a \<open>Map\<close> in three ways. Its own properties
  are enumerated with the array indices first, in ascending numeric order, and the other
  names after them in insertion order; an array index is a decimal numeral without a leading
  zero whose value is below \<open>2\<^sup>3\<^sup>2 - 1\<close>. The assignment \<open>obj['__proto__'] = v\<close> runs the
  setter of \<open>Object.prototype\<close>, which creates no property (and, for a value \<open>v\<close> that is
  not an object, does nothing). Reading \<open>obj[key]\<close> for a name the object does not have
  itself gives the property of \<open>Object.prototype\<close> of that name, if there is one; all of
  them are functions or objects and therefore truthy.
\<close>

definition is_digit :: "char \<Rightarrow> bool" where
  "is_digit c = (c \<in> set ''0123456789'')"

definition index_value :: "string \<Rightarrow> int" where
  "index_value s = foldl (\<lambda>n c. 10 * n + (of_char c - 48)) 0 s"

definition is_array_index :: "string \<Rightarrow> bool" where
  "is_array_index s =
     (s \<noteq> [] \<and> list_all is_digit s \<and> (s = ''0'' \<or> hd s \<noteq> CHR ''0'')
      \<and> index_value s < 4294967295)"

fun insert_index :: "(string \<times> 'v) list \<Rightarrow> string \<Rightarrow> 'v \<Rightarrow> (string \<times> 'v) list" where
  "insert_index [] k v = [(k, v)]"
| "insert_index ((k', v') # kvs) k v =
     (if is_array_index k' \<and> index_value k' < index_value k
      then (k', v') # insert_index kvs k v
      else (k, v) # (k', v') # kvs)"

text \<open>\<open>obj[key] = v\<close> on a plain object, for a value \<open>v\<close> that is not an object.\<close>

definition obj_assign :: "(string \<times> 'v) list \<Rightarrow> string \<Rightarrow> 'v \<Rightarrow> (string \<times> 'v) list" where
  "obj_assign kvs k v =
     (if k = ''__proto__'' then kvs
      else if obj_get kvs k = None \<and> is_array_index k then insert_index kvs k v
      else obj_set kvs k v)"

definition Object_prototype_names :: "string list" where
  "Object_prototype_names =
     [''constructor'', ''__defineGetter__'', ''__defineSetter__'', ''hasOwnProperty'',
      ''__lookupGetter__'', ''__lookupSetter__'', ''isPrototypeOf'', ''propertyIsEnumerable'',
      ''toString'', ''valueOf'', ''__proto__'', ''toLocaleString'']"

text \<open>Whether \<open>obj[key]\<close> is truthy, given the truthiness of the values the object holds.\<close>

definition prop_truthy :: "('v \<Rightarrow> bool) \<Rightarrow> (string \<times> 'v) list \<Rightarrow> string \<Rightarrow> bool" where
  "prop_truthy is_truthy kvs k =
     (case obj_get kvs k of
        Some v \<Rightarrow> is_truthy v
      | None \<Rightarrow> k \<in> set Object_prototype_names)"

text \<open>\<open>String.prototype.includes\<close>: the argument occurs as a contiguous run.\<close>

fun str_includes :: "string \<Rightarrow> string \<Rightarrow> bool" where
  "str_includes [] t = (t = [])"
| "str_includes (c # cs) t = (prefix t (c # cs) \<or> str_includes cs t)"

text \<open>Decimal digits of a number, as \<open>JSON.stringify\<close> prints an integer.\<close>

definition digit_char :: "nat \<Rightarrow> char" where
  "digit_char d = ''0123456789abcdef'' ! (d mod 16)"

function show_nat :: "nat \<Rightarrow> string" where
  "show_nat n = (if n < 10 then [digit_char n] else show_nat (n div 10) @ [digit_char (n mod 10)])"
  by pat_completeness auto
termination
  by (relation "measure id") auto

declare show_nat.simps [simp del]

definition show_int :: "int \<Rightarrow> string" where
  "show_int i = (if i < 0 then CHR ''-'' # show_nat (nat (- i)) else show_nat (nat i))"

text \<open>
  \<open>JSON.stringify\<close> quotes a string and escapes the double quote, the backslash and the
  control characters below U+0020; every other character is copied.
\<close>

definition escape_char :: "char \<Rightarrow> string" where
  "escape_char c =
     (if c = CHR 0x22 then [CHR 0x5C, CHR 0x22]
      else if c = CHR 0x5C then [CHR 0x5C, CHR 0x5C]
      else if c = CHR 0x08 then [CHR 0x5C, CHR ''b'']
      else if c = CHR 0x09 then [CHR 0x5C, CHR ''t'']
      else if c = CHR 0x0A then [CHR 0x5C, CHR ''n'']
      else if c = CHR 0x0C then [CHR 0x5C, CHR ''f'']
      else if c = CHR 0x0D then [CHR 0x5C, CHR ''r'']
      else if (of_char c :: nat) < 32
        then [CHR 0x5C, CHR ''u'', CHR ''0'', CHR ''0'',
              digit_char (of_char c div 16), digit_char (of_char c mod 16)]
      else [c])"

definition quote :: "string \<Rightarrow> string" where
  "quote s = CHR 0x22 # concat (map escape_char s) @ [CHR 0x22]"

fun join_comma :: "string list \<Rightarrow> string" where
  "join_comma [] = []"
| "join_comma [x] = x"
| "join_comma (x # y # zs) = x @ CHR '','' # join_comma (y # zs)"

fun stringify :: "json \<Rightarrow> string"
  and stringify_elems :: "json list \<Rightarrow> string list"
  and stringify_members :: "(string \<times> json) list \<Rightarrow> string list" where
  "stringify JNull = ''null''"
| "stringify (JBool b) = (if b then ''true'' else ''false'')"
| "stringify (JNum n) = show_int n"
| "stringify (JStr s) = quote s"
| "stringify (JArr xs) = CHR ''['' # join_comma (stringify_elems xs) @ '']''"
| "stringify (JObj kvs) = CHR ''{'' # join_comma (stringify_members kvs) @ ''}''"
| "stringify_elems [] = []"
| "stringify_elems (x # xs) = stringify x # stringify_elems xs"
| "stringify_members [] = []"
| "stringify_members (kv # kvs) =
     (quote (fst kv) @ CHR '':'' # stringify (snd kv)) # stringify_members kvs"

section \<open>Schema records\<close>

text \<open>
  \<open>FieldSchema\<close> and \<open>CollectionSchema\<close> carry the attributes the extractor, the
  relationship detector and the query generator read. A collection whose \<open>fields\<close> is
  absent behaves in the generator like one with no fields (\<open>collection.fields?. ... || []\<close>),
  so \<open>fields\<close> is a list. The \<open>name\<close> and \<open>fields\<close> of a collection are the
  record fields \<open>cname\<close> and \<open>cfields\<close>.
\<close>

record FieldSchema =
  name :: string
  type :: string
  required :: bool
  isArray :: bool
  isNested :: bool

record CollectionSchema =
  cname :: string
  cfields :: "FieldSchema list"

text \<open>\<open>schemaCache?.collections || []\<close>: a missing cache, or one without collections,
  gives the empty list.\<close>

record SchemaCache =
  collections :: "CollectionSchema list option"

definition cache_collections :: "SchemaCache option \<Rightarrow> CollectionSchema list" where
  "cache_collections sc =
     (case sc of None \<Rightarrow> []
      | Some c \<Rightarrow> (case collections c of None \<Rightarrow> [] | Some cs \<Rightarrow> cs))"

section \<open>Query intent and generated query\<close>

text \<open>
  The attributes of an intent that the generator reads; an optional attribute that is
  missing is \<open>None\<close>. The limit of an intent is an integer, as \<open>extractLimit\<close> gives it:
  the value of a decimal numeral, capped at 1000.
\<close>

datatype intent_type = Count | Find | Aggregate | Schema | Relationship | General

record QueryIntent =
  itype :: intent_type
  collection :: "string option"
  filters :: "(string \<times> json) list option"
  ifields :: "string list option"
  aggregationStage :: "string option"
  limit :: "int option"

record QueryOptions =
  projection :: "(string \<times> int) list option"
  olimit :: int

record GeneratedQuery =
  qtype :: string
  qcollection :: string
  query :: "json option"
  pipeline :: "json list option"
  options :: "QueryOptions option"
  isValid :: bool
  validationErrors :: "string list"

section \<open>Character classes and the pattern of the aggregation stage\<close>

text \<open>
  The regular-expression classes \<open>\s\<close> and \<open>\w\<close>, \<open>String.prototype.toLowerCase\<close>,
  and a literal of lower-case ASCII letters matched without regard to case (flag \<open>i\<close>).
  Below U+0100 the white space characters are the space, the four controls U+0009 to U+000C, the
  carriage return and the no-break space U+00A0; the letters with a lower-case form are
  \<open>A\<close> to \<open>Z\<close> and U+00C0 to U+00DE without the multiplication sign U+00D7, each 32
  below its lower-case form; and no character other than an ASCII letter matches an ASCII
  letter under the flag \<open>i\<close>.
\<close>

definition is_space :: "char \<Rightarrow> bool" where
  "is_space c =
     (c \<in> set [CHR 0x20, CHR 0x09, CHR 0x0A, CHR 0x0B, CHR 0x0C, CHR 0x0D, CHR 0xA0])"

definition is_word :: "char \<Rightarrow> bool" where
  "is_word c =
     (c \<in> set ''abcdefghijklmnopqrstuvwxyzABCDEFGHIJKLMNOPQRSTUVWXYZ0123456789_'')"

definition to_lower_char :: "char \<Rightarrow> char" where
  "to_lower_char c =
     (case map_of (zip ''ABCDEFGHIJKLMNOPQRSTUVWXYZ'' ''abcdefghijklmnopqrstuvwxyz'') c of
        Some l \<Rightarrow> l
      | None \<Rightarrow>
          (if 0xC0 \<le> (of_char c :: int) \<and> (of_char c :: int) \<le> 0xDE \<and> c \<noteq> CHR 0xD7
           then char_of (of_char c + 32 :: int) else c))"

definition toLowerCase :: "string \<Rightarrow> string" where
  "toLowerCase s = map to_lower_char s"

fun lit_ci :: "string \<Rightarrow> string \<Rightarrow> string option" where
  "lit_ci [] s = Some s"
| "lit_ci (l # ls) [] = None"
| "lit_ci (l # ls) (c # cs) = (if to_lower_char c = l then lit_ci ls cs else None)"

text \<open>\<open>\s+\<close> and \<open>(\w+)\<close>: the longest run, which must not be empty. What follows either
  of them in the patterns below starts with a character outside the class, so a shorter run
  never leads to a match and the longest one is the only candidate.\<close>

definition spaces1 :: "string \<Rightarrow> string option" where
  "spaces1 s = (if takeWhile is_space s = [] then None else Some (dropWhile is_space s))"

definition word1 :: "string \<Rightarrow> (string \<times> string) option" where
  "word1 s =
     (if takeWhile is_word s = [] then None
      else Some (takeWhile is_word s, dropWhile is_word s))"

text \<open>\<open>/group\s+by\s+(\w+)/i\<close> tried at the head of the text, and its leftmost match.\<close>

definition match_group_by :: "string \<Rightarrow> string option" where
  "match_group_by s =
     Option.bind (lit_ci ''group'' s) (\<lambda>s1.
     Option.bind (spaces1 s1) (\<lambda>s2.
     Option.bind (lit_ci ''by'' s2) (\<lambda>s3.
     Option.bind (spaces1 s3) (\<lambda>s4.
     map_option fst (word1 s4)))))"

fun search_group_by :: "string \<Rightarrow> string option" where
  "search_group_by [] = match_group_by []"
| "search_group_by (c # cs) =
     (case match_group_by (c # cs) of Some w \<Rightarrow> Some w | None \<Rightarrow> search_group_by cs)"

section \<open>The query generator\<close>

definition parseAggregationStage :: "string \<Rightarrow> json option" where
  "parseAggregationStage stage =
     (case search_group_by stage of
        Some fieldName \<Rightarrow>
          Some (JObj [(''$group'',
                  JObj [(''_id'', JStr (CHR ''$'' # fieldName)),
                        (''count'', JObj [(''$sum'', JNum 1)])])])
      | None \<Rightarrow> None)"

definition filters_or_empty :: "QueryIntent \<Rightarrow> (string \<times> json) list" where
  "filters_or_empty intent = (case filters intent of None \<Rightarrow> [] | Some f \<Rightarrow> f)"

definition generateCountQuery :: "QueryIntent \<Rightarrow> CollectionSchema \<Rightarrow> GeneratedQuery" where
  "generateCountQuery intent coll =
     \<lparr> qtype = ''count'', qcollection = cname coll,
       query = Some (JObj (filters_or_empty intent)), pipeline = None, options = None,
       isValid = True, validationErrors = [] \<rparr>"

text \<open>\<open>names.forEach(n => { projection[n] = 1 })\<close> on an empty object.\<close>

definition project_all :: "string list \<Rightarrow> (string \<times> int) list" where
  "project_all names = foldl (\<lambda>proj n. obj_assign proj n 1) [] names"

definition default_fields :: "CollectionSchema \<Rightarrow> FieldSchema list" where
  "default_fields coll =
     take 8 (filter (\<lambda>f. type f \<noteq> ''Buffer'' \<and> type f \<noteq> ''Binary'' \<and> name f \<noteq> ''_id'')
       (cfields coll))"

definition find_projection :: "QueryIntent \<Rightarrow> CollectionSchema \<Rightarrow> (string \<times> int) list option" where
  "find_projection intent coll =
     (case ifields intent of
        Some (f # fs) \<Rightarrow> Some (project_all (f # fs))
      | _ \<Rightarrow>
        (if default_fields coll \<noteq> []
         then Some (project_all (map name (default_fields coll)))
         else None))"

definition limit_or :: "QueryIntent \<Rightarrow> int \<Rightarrow> int" where
  "limit_or intent d =
     (case limit intent of Some n \<Rightarrow> (if n \<noteq> 0 then n else d) | None \<Rightarrow> d)"

definition generateFindQuery :: "QueryIntent \<Rightarrow> CollectionSchema \<Rightarrow> GeneratedQuery" where
  "generateFindQuery intent coll =
     \<lparr> qtype = ''find'', qcollection = cname coll,
       query = Some (JObj (filters_or_empty intent)), pipeline = None,
       options = Some \<lparr> projection = find_projection intent coll,
                        olimit = limit_or intent 10 \<rparr>,
       isValid = True, validationErrors = [] \<rparr>"

definition match_stage :: "QueryIntent \<Rightarrow> json list" where
  "match_stage intent =
     (case filters intent of
        Some (kv # kvs) \<Rightarrow> [JObj [(''$match'', JObj (kv # kvs))]]
      | _ \<Rightarrow> [])"

definition group_stage :: "QueryIntent \<Rightarrow> json list" where
  "group_stage intent =
     (case aggregationStage intent of
        Some (c # cs) \<Rightarrow>
          (case parseAggregationStage (c # cs) of Some g \<Rightarrow> [g] | None \<Rightarrow> [])
      | _ \<Rightarrow> [])"

definition generateAggregateQuery :: "QueryIntent \<Rightarrow> CollectionSchema \<Rightarrow> GeneratedQuery" where
  "generateAggregateQuery intent coll =
     \<lparr> qtype = ''aggregate'', qcollection = cname coll,
       query = None,
       pipeline = Some (match_stage intent @ group_stage intent
                        @ [JObj [(''$limit'', JNum (limit_or intent 100))]]),
       options = None,
       isValid = True, validationErrors = [] \<rparr>"

text \<open>The validation gate. The three checks push their messages in the order of the
  source; the result is valid when no message was pushed.\<close>

definition query_tokens :: "string list" where
  "query_tokens = [''$set'', ''$unset'', ''$push'', ''$pull'', ''$inc'', ''$rename'']"

definition pipeline_tokens :: "string list" where
  "pipeline_tokens = [''$out'', ''$merge'', ''$set'', ''$unset'']"

definition includes_any :: "string \<Rightarrow> string list \<Rightarrow> bool" where
  "includes_any s ts = list_ex (str_includes s) ts"

definition validateQuery :: "GeneratedQuery \<Rightarrow> CollectionSchema \<Rightarrow> bool \<times> string list" where
  "validateQuery q coll =
     (let e1 = (if qtype q \<notin> set [''count'', ''find'', ''aggregate'']
                then [''Query type '' @ [CHR 0x27] @ qtype q @ [CHR 0x27] @ '' is not allowed'']
                else []);
          e2 = (case query q of
                  Some qq \<Rightarrow>
                    (if truthy qq \<and> includes_any (stringify qq) query_tokens
                     then [''Write operations are not allowed''] else [])
                | None \<Rightarrow> []);
          e3 = (case pipeline q of
                  Some p \<Rightarrow>
                    (if includes_any (stringify (JArr p)) pipeline_tokens
                     then [''Write operations in pipeline are not allowed''] else [])
                | None \<Rightarrow> []);
          errors = e1 @ e2 @ e3
      in (errors = [], errors))"

definition find_collection :: "CollectionSchema list \<Rightarrow> string \<Rightarrow> CollectionSchema option" where
  "find_collection cs n = List.find (\<lambda>c. cname c = n) cs"

definition invalid_query :: "string \<Rightarrow> string \<Rightarrow> GeneratedQuery" where
  "invalid_query c msg =
     \<lparr> qtype = ''find'', qcollection = c, query = Some (JObj []), pipeline = None,
       options = None, isValid = False, validationErrors = [msg] \<rparr>"

text \<open>The \<open>switch\<close> of \<open>generateQuery\<close>: every type other than count and aggregate is
  compiled as a find.\<close>

definition generate_by_type :: "QueryIntent \<Rightarrow> CollectionSchema \<Rightarrow> GeneratedQuery" where
  "generate_by_type intent coll =
     (case itype intent of
        Count \<Rightarrow> generateCountQuery intent coll
      | Find \<Rightarrow> generateFindQuery intent coll
      | Aggregate \<Rightarrow> generateAggregateQuery intent coll
      | _ \<Rightarrow> generateFindQuery intent coll)"

definition generateQuery :: "QueryIntent \<Rightarrow> SchemaCache option \<Rightarrow> GeneratedQuery" where
  "generateQuery intent schemaCache =
     (case collection intent of
        None \<Rightarrow> invalid_query [] ''No collection specified in query''
      | Some [] \<Rightarrow> invalid_query [] ''No collection specified in query''
      | Some (c # cs) \<Rightarrow>
        (case find_collection (cache_collections schemaCache) (c # cs) of
           None \<Rightarrow>
             invalid_query (c # cs)
               (''Collection '' @ [CHR 0x27] @ (c # cs) @ [CHR 0x27] @ '' not found in schema'')
         | Some coll \<Rightarrow>
             (let generatedQuery = generate_by_type intent coll;
                  queryValidation = validateQuery generatedQuery coll
              in generatedQuery \<lparr> isValid := fst queryValidation,
                                  validationErrors := snd queryValidation \<rparr>)))"

section \<open>Where a token can occur in a serialised value\<close>

text \<open>
  The claims about the validation gate distinguish a token used as an operator key from a
  token inside a value. \<open>json_keys\<close> lists the property names of a value at every depth and
  \<open>json_strings\<close> its string values at every depth; \<open>mentioned t ss\<close> says that one of the
  strings \<open>ss\<close> contains the token \<open>t\<close>. An operator token is \<open>$\<close> followed by lower-case
  letters, as all eight tokens of the gate are.
\<close>

fun json_keys :: "json \<Rightarrow> string list"
  and json_keys_elems :: "json list \<Rightarrow> string list"
  and json_keys_members :: "(string \<times> json) list \<Rightarrow> string list" where
  "json_keys JNull = []"
| "json_keys (JBool b) = []"
| "json_keys (JNum n) = []"
| "json_keys (JStr s) = []"
| "json_keys (JArr xs) = json_keys_elems xs"
| "json_keys (JObj kvs) = json_keys_members kvs"
| "json_keys_elems [] = []"
| "json_keys_elems (x # xs) = json_keys x @ json_keys_elems xs"
| "json_keys_members [] = []"
| "json_keys_members (kv # kvs) = fst kv # json_keys (snd kv) @ json_keys_members kvs"

fun json_strings :: "json \<Rightarrow> string list"
  and json_strings_elems :: "json list \<Rightarrow> string list"
  and json_strings_members :: "(string \<times> json) list \<Rightarrow> string list" where
  "json_strings JNull = []"
| "json_strings (JBool b) = []"
| "json_strings (JNum n) = []"
| "json_strings (JStr s) = [s]"
| "json_strings (JArr xs) = json_strings_elems xs"
| "json_strings (JObj kvs) = json_strings_members kvs"
| "json_strings_elems [] = []"
| "json_strings_elems (x # xs) = json_strings x @ json_strings_elems xs"
| "json_strings_members [] = []"
| "json_strings_members (kv # kvs) = json_strings (snd kv) @ json_strings_members kvs"

definition lower_letters :: "char set" where
  "lower_letters = set ''abcdefghijklmnopqrstuvwxyz''"

definition operator_token :: "string \<Rightarrow> bool" where
  "operator_token t =
     (case t of [] \<Rightarrow> False
      | d # r \<Rightarrow> d = CHR ''$'' \<and> set r \<subseteq> lower_letters)"

definition mentioned :: "string \<Rightarrow> string list \<Rightarrow> bool" where
  "mentioned t ss = list_ex (\<lambda>s. str_includes s t) ss"

section \<open>The connection pool\<close>

text \<open>
  \<open>ConnectionPoolManager\<close> keeps a \<open>Map\<close> from pool key to entry. The state of the model
  has that map, as an association list in insertion order, the clients on which \<open>close()\<close>
  has been called, and a counter that names the next \<open>MongoClient\<close> to be constructed.
  Time is the number of milliseconds of \<open>Date.getTime()\<close> and is an input of every
  operation; the outcome of \<open>client.connect()\<close> is an input of \<open>getConnection\<close>, and
  which clients \<open>close()\<close> succeeds on is an input of \<open>closeAll\<close>. Operations run one
  after the other, as sequential calls do.
\<close>

record PoolEntry =
  client :: nat
  lastUsed :: int
  refCount :: int

record PoolState =
  pools :: "(string \<times> PoolEntry) list"
  closed :: "nat list"
  nextClient :: nat

datatype pool_error = ConnectionStringRequired | ConnectFailed | CloseFailed

text \<open>
  \<open>hashConnectionString\<close>: \<open>hash = ((hash << 5) - hash) + char; hash = hash & hash\<close> keeps
  the low 32 bits as a signed integer, which is arithmetic on 32-bit words; the key is
  \<open>pool_\<close> followed by the decimal digits of the absolute value.
\<close>

definition hash_step :: "32 word \<Rightarrow> char \<Rightarrow> 32 word" where
  "hash_step h c = (push_bit 5 h - h) + of_nat (of_char c)"

definition hashConnectionString :: "string \<Rightarrow> string" where
  "hashConnectionString connectionString =
     ''pool_'' @ show_nat (nat \<bar>sint (foldl hash_step 0 connectionString)\<bar>)"

definition getConnection ::
  "string \<Rightarrow> int \<Rightarrow> bool \<Rightarrow> PoolState \<Rightarrow> (pool_error + nat) \<times> PoolState" where
  "getConnection connectionString now connect_ok st =
     (if connectionString = [] then (Inl ConnectionStringRequired, st)
      else
        (let poolKey = hashConnectionString connectionString in
         case obj_get (pools st) poolKey of
           Some existingPool \<Rightarrow>
             (Inr (client existingPool),
              st \<lparr> pools := obj_set (pools st) poolKey
                     (existingPool \<lparr> refCount := refCount existingPool + 1,
                                    lastUsed := now \<rparr>) \<rparr>)
         | None \<Rightarrow>
             (if connect_ok
              then (Inr (nextClient st),
                    st \<lparr> pools := obj_set (pools st) poolKey
                           \<lparr> client = nextClient st, lastUsed = now, refCount = 1 \<rparr>,
                         nextClient := Suc (nextClient st) \<rparr>)
              else (Inl ConnectFailed, st \<lparr> nextClient := Suc (nextClient st) \<rparr>))))"

definition releaseConnection :: "string \<Rightarrow> int \<Rightarrow> PoolState \<Rightarrow> PoolState" where
  "releaseConnection connectionString now st =
     (let poolKey = hashConnectionString connectionString in
      case obj_get (pools st) poolKey of
        Some pool \<Rightarrow>
          st \<lparr> pools := obj_set (pools st) poolKey
                 (pool \<lparr> refCount := refCount pool - 1, lastUsed := now \<rparr>) \<rparr>
      | None \<Rightarrow> st)"

text \<open>\<open>CONSTANTS.CACHE.CONNECTION_POOL_IDLE\<close>, thirty minutes in milliseconds.\<close>

definition CONNECTION_POOL_IDLE :: int where
  "CONNECTION_POOL_IDLE = 30 * 60 * 1000"

text \<open>The body of the timer callback of \<open>startCleanupInterval\<close>, run at time \<open>now\<close>: an
  entry is closed and deleted when it has been idle for longer than the threshold and its
  reference count is zero.\<close>

definition idle_and_unused :: "int \<Rightarrow> PoolEntry \<Rightarrow> bool" where
  "idle_and_unused now pool = (now - lastUsed pool > CONNECTION_POOL_IDLE \<and> refCount pool = 0)"

definition cleanup :: "int \<Rightarrow> PoolState \<Rightarrow> PoolState" where
  "cleanup now st =
     st \<lparr> pools := filter (\<lambda>kp. \<not> idle_and_unused now (snd kp)) (pools st),
          closed := closed st
                    @ map (\<lambda>kp. client (snd kp))
                        (filter (\<lambda>kp. idle_and_unused now (snd kp)) (pools st)) \<rparr>"







section \<open>The confidence score\<close>

text \<open>
  \<open>calculateConfidence\<close> adds JavaScript numbers, which are IEEE 754 doubles. Every value
  that occurs is a multiple of \<open>2\<^sup>-\<^sup>5\<^sup>5\<close>, so a double is modelled by the integer \<open>n\<close> with
  value \<open>n / 2\<^sup>5\<^sup>5\<close>. An addition is the exact sum rounded to 53 significant bits, ties to
  the even significand, as the default rounding mode does.
\<close>

fun bit_len :: "int \<Rightarrow> nat" where
  "bit_len n = (if n \<le> 0 then 0 else Suc (bit_len (n div 2)))"

declare bit_len.simps [simp del]

definition round53 :: "int \<Rightarrow> int" where
  "round53 n =
     (if bit_len n \<le> 53 then n
      else
        (let k = bit_len n - 53; q = n div 2 ^ k; r = n mod 2 ^ k; half = 2 ^ (k - 1)
         in (if r > half \<or> (r = half \<and> odd q) then q + 1 else q) * 2 ^ k))"

definition dadd :: "int \<Rightarrow> int \<Rightarrow> int" where
  "dadd a b = round53 (a + b)"

definition double_value :: "int \<Rightarrow> real" where
  "double_value n = real_of_int n / 2 ^ 55"

text \<open>The doubles written \<open>0.5\<close>, \<open>0.3\<close>, \<open>0.15\<close>, \<open>0.2\<close> and \<open>1\<close> in the source.\<close>

definition D_0_5 :: int where "D_0_5 = 2 ^ 54"
definition D_0_3 :: int where "D_0_3 = 5404319552844595 * 2"
definition D_0_15 :: int where "D_0_15 = 5404319552844595"
definition D_0_2 :: int where "D_0_2 = 3602879701896397 * 2"
definition D_1 :: int where "D_1 = 2 ^ 55"

definition calculateConfidence ::
  "intent_type \<Rightarrow> string list \<Rightarrow> (string \<times> 'v) list \<Rightarrow> int" where
  "calculateConfidence ty collections' filters' =
     (let c0 = D_0_5;
          c1 = (if length collections' > 0 then dadd c0 D_0_3 else c0);
          c2 = (if length filters' > 0 then dadd c1 D_0_15 else c1);
          c3 = (if ty \<noteq> General then dadd c2 D_0_15 else c2);
          c4 = (if ty = Find \<and> length collections' > 0 then min (dadd c3 D_0_2) D_1 else c3)
      in min c4 D_1)"

text \<open>The number of bonus conditions an input satisfies: a collection was mentioned, a
  filter was extracted, the type is not general; \<open>bonus_count\<close> also counts the further
  boost of a find with a collection mentioned.\<close>

definition basic_bonus_count ::
  "intent_type \<Rightarrow> string list \<Rightarrow> (string \<times> 'v) list \<Rightarrow> nat" where
  "basic_bonus_count ty collections' filters' =
     (if collections' \<noteq> [] then 1 else 0) + (if filters' \<noteq> [] then 1 else 0)
     + (if ty \<noteq> General then 1 else 0)"

definition bonus_count :: "intent_type \<Rightarrow> string list \<Rightarrow> (string \<times> 'v) list \<Rightarrow> nat" where
  "bonus_count ty collections' filters' =
     basic_bonus_count ty collections' filters'
     + (if ty = Find \<and> collections' \<noteq> [] then 1 else 0)"

section \<open>The relationship detector\<close>

record Relationship =
  rfrom :: string
  rto :: string
  rfield :: string
  rtype :: string
  direction :: string

text \<open>
  The patterns of the detector all anchor a fixed suffix at the end of the name, so each is
  a test on the end of the string. \<open>strip_suffix suf s\<close> is the part of \<open>s\<close> before
  \<open>suf\<close> when \<open>s\<close> ends with \<open>suf\<close>.
\<close>

definition strip_suffix :: "string \<Rightarrow> string \<Rightarrow> string option" where
  "strip_suffix suf s =
     (if length suf \<le> length s \<and> drop (length s - length suf) s = suf
      then Some (take (length s - length suf) s) else None)"

definition reference_suffixes :: "string list" where
  "reference_suffixes = [''_id'', ''_Id'', ''_ID'', ''_ref'', ''_Ref'', ''_REF'']"

text \<open>The part before the first of the given suffixes that the name ends with.\<close>

fun strip_first :: "string list \<Rightarrow> string \<Rightarrow> string option" where
  "strip_first [] s = None"
| "strip_first (suf # sufs) s =
     (case strip_suffix suf s of Some b \<Rightarrow> Some b | None \<Rightarrow> strip_first sufs s)"

text \<open>\<open>REGEX_PATTERNS.COLLECTION_REFERENCE\<close>,
  \<open>/^[a-zA-Z_][a-zA-Z0-9_]*_(id|Id|ID|ref|Ref|REF)$/\<close>: a reference suffix preceded by a
  non-empty run of word characters that does not start with a digit.\<close>

definition COLLECTION_REFERENCE :: "string \<Rightarrow> bool" where
  "COLLECTION_REFERENCE s =
     (case strip_first reference_suffixes s of
        None \<Rightarrow> False
      | Some [] \<Rightarrow> False
      | Some (c # cs) \<Rightarrow> is_word c \<and> \<not> is_digit c \<and> list_all is_word cs)"

definition extractReferencedCollection :: "string \<Rightarrow> string list \<Rightarrow> string option" where
  "extractReferencedCollection fieldName collectionNames =
     (let baseName = (case strip_first reference_suffixes fieldName of
                        Some b \<Rightarrow> b | None \<Rightarrow> fieldName);
          plural = baseName @ ''s'';
          singular = (if baseName \<noteq> [] \<and> last baseName = CHR ''s''
                      then butlast baseName else baseName)
      in if baseName \<in> set collectionNames then Some baseName
         else if plural \<in> set collectionNames then Some plural
         else if singular \<in> set collectionNames then Some singular
         else None)"

text \<open>\<open>/^(.+)Id$/\<close> and its three siblings: the group is not empty and, as \<open>.\<close> matches
  no line terminator, contains neither a line feed nor a carriage return. The first pattern
  that matches decides.\<close>

definition dot_plus :: "string \<Rightarrow> bool" where
  "dot_plus b = (b \<noteq> [] \<and> CHR 0x0A \<notin> set b \<and> CHR 0x0D \<notin> set b)"

fun first_pattern :: "string list \<Rightarrow> string \<Rightarrow> string option" where
  "first_pattern [] s = None"
| "first_pattern (suf # sufs) s =
     (case strip_suffix suf s of
        Some b \<Rightarrow> (if dot_plus b then Some b else first_pattern sufs s)
      | None \<Rightarrow> first_pattern sufs s)"

definition inferCollectionFromFieldName :: "string \<Rightarrow> string list \<Rightarrow> string option" where
  "inferCollectionFromFieldName fieldName collectionNames =
     (case first_pattern [''Id'', ''_id'', ''Ref'', ''_ref''] fieldName of
        Some baseName \<Rightarrow> extractReferencedCollection baseName collectionNames
      | None \<Rightarrow> None)"

definition relationship :: "CollectionSchema \<Rightarrow> FieldSchema \<Rightarrow> string \<Rightarrow> Relationship" where
  "relationship c f target =
     \<lparr> rfrom = cname c, rto = target, rfield = name f,
       rtype = (if isArray f then ''one-to-many'' else ''one-to-one''),
       direction = ''forward'' \<rparr>"

text \<open>The relationships pushed for one field: the name heuristic, then the heuristic on
  fields of type \<open>objectId\<close>. The tests \<open>if (referencedCollection)\<close> and
  \<open>if (possibleCollection)\<close> are tests for a truthy string, so a match on a collection
  whose name is the empty string pushes nothing.\<close>

definition push_if_truthy ::
  "CollectionSchema \<Rightarrow> FieldSchema \<Rightarrow> string option \<Rightarrow> Relationship list" where
  "push_if_truthy c f target =
     (case target of
        None \<Rightarrow> []
      | Some t \<Rightarrow> (if t \<noteq> [] then [relationship c f t] else []))"

definition field_relationships ::
  "string list \<Rightarrow> CollectionSchema \<Rightarrow> FieldSchema \<Rightarrow> Relationship list" where
  "field_relationships collectionNames c f =
     (if COLLECTION_REFERENCE (name f)
      then push_if_truthy c f (extractReferencedCollection (name f) collectionNames)
      else [])
     @ (if type f = ''objectId'' \<and> name f \<noteq> ''_id''
        then push_if_truthy c f (inferCollectionFromFieldName (name f) collectionNames)
        else [])"

definition collection_relationships ::
  "string list \<Rightarrow> CollectionSchema \<Rightarrow> Relationship list" where
  "collection_relationships collectionNames c =
     concat (map (field_relationships collectionNames c) (cfields c))"

definition relationship_key :: "Relationship \<Rightarrow> string" where
  "relationship_key rel = rfrom rel @ ''-'' @ rto rel @ ''-'' @ rfield rel"

fun dedup_from :: "string list \<Rightarrow> Relationship list \<Rightarrow> Relationship list" where
  "dedup_from seen [] = []"
| "dedup_from seen (rel # rels) =
     (if relationship_key rel \<in> set seen then dedup_from seen rels
      else rel # dedup_from (relationship_key rel # seen) rels)"

definition deduplicateRelationships :: "Relationship list \<Rightarrow> Relationship list" where
  "deduplicateRelationships relationships = dedup_from [] relationships"

definition detectRelationships :: "CollectionSchema list \<Rightarrow> Relationship list" where
  "detectRelationships cs =
     deduplicateRelationships
       (concat (map (collection_relationships (map cname cs)) cs))"

section \<open>The schema extractor\<close>

text \<open>
  A sampled document is a JavaScript object. Its values are modelled by \<open>doc_value\<close>:
  the JSON values, \<open>undefined\<close>, and \<open>Date\<close> (by its time value). An object is the list
  of its entries in the order of \<open>Object.entries\<close>. \<open>FieldSchema\<close> is modelled without
  \<open>sampleValues\<close>, \<open>enumValues\<close> and \<open>nestedSchema\<close>, which no other attribute
  depends on.
\<close>

datatype doc_value =
    DNull
  | DUndefined
  | DBool bool
  | DNum int
  | DStr string
  | DDate int
  | DArr "doc_value list"
  | DObj "(string \<times> doc_value) list"

fun doc_truthy :: "doc_value \<Rightarrow> bool" where
  "doc_truthy DNull = False"
| "doc_truthy DUndefined = False"
| "doc_truthy (DBool b) = b"
| "doc_truthy (DNum n) = (n \<noteq> 0)"
| "doc_truthy (DStr s) = (s \<noteq> [])"
| "doc_truthy (DDate t) = True"
| "doc_truthy (DArr xs) = True"
| "doc_truthy (DObj kvs) = True"

fun getFieldType :: "doc_value \<Rightarrow> string" where
  "getFieldType DNull = ''null''"
| "getFieldType DUndefined = ''undefined''"
| "getFieldType (DArr xs) = ''array''"
| "getFieldType (DDate t) = ''date''"
| "getFieldType (DObj kvs) =
     (case obj_get kvs ''_id'' of
        Some v \<Rightarrow> (if doc_truthy v then ''objectId'' else ''object'')
      | None \<Rightarrow> ''object'')"
| "getFieldType (DBool b) = ''boolean''"
| "getFieldType (DNum n) = ''number''"
| "getFieldType (DStr s) = ''string''"

definition is_nullish :: "doc_value \<Rightarrow> bool" where
  "is_nullish v = (v = DNull \<or> v = DUndefined)"

fun is_plain_object :: "doc_value \<Rightarrow> bool" where
  "is_plain_object (DObj kvs) = True"
| "is_plain_object v = False"

fun is_array :: "doc_value \<Rightarrow> bool" where
  "is_array (DArr xs) = True"
| "is_array v = False"

definition createFieldSchema :: "string \<Rightarrow> doc_value \<Rightarrow> FieldSchema" where
  "createFieldSchema key v =
     \<lparr> name = key, type = getFieldType v, required = (\<not> is_nullish v),
       isArray = is_array v, isNested = is_plain_object v \<rparr>"

definition updateFieldSchema :: "FieldSchema \<Rightarrow> doc_value \<Rightarrow> FieldSchema" where
  "updateFieldSchema field v =
     (let field1 = (if is_nullish v then field \<lparr> required := False \<rparr> else field);
          currentType = getFieldType v
      in if type field1 \<noteq> currentType \<and> currentType \<noteq> ''null''
         then field1 \<lparr> type := ''mixed'' \<rparr> else field1)"

definition field_path :: "string \<Rightarrow> string \<Rightarrow> string" where
  "field_path prefix' key = (if prefix' \<noteq> [] then prefix' @ ''.'' @ key else key)"

text \<open>
  \<open>extractFieldsFromDocument\<close> walks the entries of one object, updating the field map, and
  descends into a value that is an object but neither an array nor a date. The depth test of
  the source is made once per call; making it at every entry gives the same result, as the
  depth does not change within a call.
\<close>

function extractFieldsFromDocument ::
  "(string \<times> doc_value) list \<Rightarrow> string \<Rightarrow> (string \<times> FieldSchema) list \<Rightarrow> nat
     \<Rightarrow> (string \<times> FieldSchema) list" where
  "extractFieldsFromDocument [] prefix' fieldMap depth = fieldMap"
| "extractFieldsFromDocument ((key, v) # rest) prefix' fieldMap depth =
     (if depth > 3 then fieldMap
      else
        (let fieldPath = field_path prefix' key;
             fieldMap1 = (case obj_get fieldMap fieldPath of
                            None \<Rightarrow> obj_set fieldMap fieldPath (createFieldSchema key v)
                          | Some field \<Rightarrow> obj_set fieldMap fieldPath (updateFieldSchema field v));
             fieldMap2 = (case v of
                            DObj sub \<Rightarrow> extractFieldsFromDocument sub fieldPath fieldMap1 (depth + 1)
                          | _ \<Rightarrow> fieldMap1)
         in extractFieldsFromDocument rest prefix' fieldMap2 depth))"
  by pat_completeness auto
termination
  by (relation "measure (\<lambda>(entries, prefix', fieldMap, depth). size_list (size_prod (\<lambda>x. 0) size) entries)")
     auto

definition analyzeFields :: "(string \<times> doc_value) list list \<Rightarrow> FieldSchema list" where
  "analyzeFields samples =
     (if samples = [] then []
      else map snd (foldl (\<lambda>fieldMap doc. extractFieldsFromDocument doc [] fieldMap 0) [] samples))"

section \<open>Filter extraction\<close>

text \<open>
  \<open>extractFilters\<close> runs two global regular expressions over the message. Every piece of
  both patterns is a literal, a character class repeated greedily, or an alternative whose
  branches start with different characters, and what follows a repeated class starts outside
  that class; so at a given start position there is at most one way to match, the greedy one,
  and \<open>exec\<close> returns the match at the leftmost start position that has one and continues
  after its end.
\<close>

text \<open>\<open>([^\s,]+)\<close>: the longest run of characters that are neither white space nor a
  comma, which must not be empty; returned with the rest of the text.\<close>

definition value_char :: "char \<Rightarrow> bool" where
  "value_char c = (\<not> is_space c \<and> c \<noteq> CHR '','')"

definition value1 :: "string \<Rightarrow> (string \<times> string) option" where
  "value1 s =
     (if takeWhile value_char s = [] then None
      else Some (takeWhile value_char s, dropWhile value_char s))"

text \<open>\<open>(?:is|equals?|=)\<close>\<close>

definition where_operator :: "string \<Rightarrow> string option" where
  "where_operator s =
     (case lit_ci ''is'' s of
        Some r \<Rightarrow> Some r
      | None \<Rightarrow>
        (case lit_ci ''equal'' s of
           Some r \<Rightarrow> (case lit_ci ''s'' r of Some r' \<Rightarrow> Some r' | None \<Rightarrow> Some r)
         | None \<Rightarrow> lit_ci ''='' s))"

text \<open>\<open>/where\s+(\w+)\s+(?:is|equals?|=)\s+([^\s,]+)/gi\<close> tried at the head of the text:
  the field name, the value and the text after the match.\<close>

definition match_where :: "string \<Rightarrow> (string \<times> string \<times> string) option" where
  "match_where s =
     Option.bind (lit_ci ''where'' s) (\<lambda>s1.
     Option.bind (spaces1 s1) (\<lambda>s2.
     Option.bind (word1 s2) (\<lambda>(fieldName, s3).
     Option.bind (spaces1 s3) (\<lambda>s4.
     Option.bind (where_operator s4) (\<lambda>s5.
     Option.bind (spaces1 s5) (\<lambda>s6.
     map_option (\<lambda>(fieldValue, rest). (fieldName, fieldValue, rest)) (value1 s6)))))))"

text \<open>\<open>/(\w+)\s*[:=]\s*([^\s,]+)/g\<close> tried at the head of the text.\<close>

definition match_eq :: "string \<Rightarrow> (string \<times> string \<times> string) option" where
  "match_eq s =
     Option.bind (word1 s) (\<lambda>(fieldName, s1).
       (case dropWhile is_space s1 of
          [] \<Rightarrow> None
        | c # s2 \<Rightarrow>
            (if c = CHR '':'' \<or> c = CHR ''=''
             then map_option (\<lambda>(fieldValue, rest). (fieldName, fieldValue, rest))
                    (value1 (dropWhile is_space s2))
             else None)))"

text \<open>
  The values the two passes store are booleans, numbers and strings. A number that is not
  \<open>NaN\<close> is a finite double other than negative zero, which is a rational, or negative
  zero, or one of the two infinities. \<open>Number\<close> stands for the built-in conversion of a
  string to a number, with \<open>None\<close> for \<open>NaN\<close>; it is a parameter of the model.
\<close>

datatype number = Num rat | NegZero | PosInfinity | NegInfinity

datatype filter_value = FBool bool | FNum number | FStr string

text \<open>Truthiness of a stored value: \<open>false\<close>, \<open>0\<close>, \<open>-0\<close> and the empty string are
  falsy.\<close>

fun filter_truthy :: "filter_value \<Rightarrow> bool" where
  "filter_truthy (FBool b) = b"
| "filter_truthy (FNum n) = (n \<noteq> Num 0 \<and> n \<noteq> NegZero)"
| "filter_truthy (FStr s) = (s \<noteq> [])"

text \<open>The coercion of a matched value.\<close>

definition parse_value :: "(string \<Rightarrow> number option) \<Rightarrow> string \<Rightarrow> filter_value" where
  "parse_value Number fieldValue =
     (if toLowerCase fieldValue = ''true'' then FBool True
      else if toLowerCase fieldValue = ''false'' then FBool False
      else (case Number fieldValue of Some n \<Rightarrow> FNum n | None \<Rightarrow> FStr fieldValue))"

text \<open>\<open>!filters[fieldName]\<close>: the value read under the name is falsy. The object
  \<open>filters\<close> is a plain object, so a name it does not have itself is looked up in
  \<open>Object.prototype\<close>.\<close>

definition not_set :: "(string \<times> filter_value) list \<Rightarrow> string \<Rightarrow> bool" where
  "not_set filters' fieldName = (\<not> prop_truthy filter_truthy filters' fieldName)"

text \<open>A match consumes at least one character, so the repeated calls of
  \<open>exec\<close> come to an end.\<close>

lemma lit_ci_length: "lit_ci l s = Some r \<Longrightarrow> length r + length l = length s"
  by (induction l s rule: lit_ci.induct) (auto split: if_splits)

lemma takeWhile_dropWhile_length:
  "takeWhile P s \<noteq> [] \<Longrightarrow> length (dropWhile P s) < length s"
proof -
  assume "takeWhile P s \<noteq> []"
  then have "0 < length (takeWhile P s)" by simp
  moreover have "length (takeWhile P s) + length (dropWhile P s) = length s"
    by (simp flip: length_append)
  ultimately show ?thesis by linarith
qed

lemma spaces1_length: "spaces1 s = Some r \<Longrightarrow> length r < length s"
  by (auto simp: spaces1_def takeWhile_dropWhile_length split: if_splits)

lemma word1_length: "word1 s = Some (w, r) \<Longrightarrow> length r < length s"
  by (auto simp: word1_def takeWhile_dropWhile_length split: if_splits)

lemma value1_length: "value1 s = Some (v, r) \<Longrightarrow> length r < length s"
  by (auto simp: value1_def takeWhile_dropWhile_length split: if_splits)

lemma where_operator_length: "where_operator s = Some r \<Longrightarrow> length r \<le> length s"
  by (auto simp: where_operator_def split: option.splits dest!: lit_ci_length)

lemma match_where_length:
  assumes "match_where s = Some (fieldName, fieldValue, rest)"
  shows "length rest < length s"
proof -
  from assms obtain s1 s2 s3 s4 s5 s6 w where
    "lit_ci ''where'' s = Some s1" "spaces1 s1 = Some s2" "word1 s2 = Some (w, s3)"
    "spaces1 s3 = Some s4" "where_operator s4 = Some s5" "spaces1 s5 = Some s6"
    "value1 s6 = Some (fieldValue, rest)"
    by (auto simp: match_where_def bind_eq_Some_conv)
  then show ?thesis
    using lit_ci_length [of "''where''" s s1] spaces1_length [of s1 s2] word1_length [of s2 w s3]
      spaces1_length [of s3 s4] where_operator_length [of s4 s5] spaces1_length [of s5 s6]
      value1_length [of s6 fieldValue rest]
    by simp
qed

lemma match_eq_length:
  assumes "match_eq s = Some (fieldName, fieldValue, rest)"
  shows "length rest < length s"
proof -
  from assms obtain w s1 where w: "word1 s = Some (w, s1)"
    and m: "(case dropWhile is_space s1 of
          [] \<Rightarrow> None
        | c # s2 \<Rightarrow>
            (if c = CHR '':'' \<or> c = CHR ''=''
             then map_option (\<lambda>(fieldValue, rest). (w, fieldValue, rest))
                    (value1 (dropWhile is_space s2))
             else None)) = Some (fieldName, fieldValue, rest)"
    by (auto simp: match_eq_def bind_eq_Some_conv)
  from m obtain c s2 where d: "dropWhile is_space s1 = c # s2"
    by (cases "dropWhile is_space s1") simp_all
  with m have v: "value1 (dropWhile is_space s2) = Some (fieldValue, rest)"
    by (auto split: if_splits)
  have "length (dropWhile is_space s2) \<le> length s2" by (rule length_dropWhile_le)
  moreover have "length (c # s2) \<le> length s1" unfolding d [symmetric] by (rule length_dropWhile_le)
  ultimately show ?thesis using word1_length [OF w] value1_length [OF v] by simp
qed

text \<open>
  The two iterations \<open>while ((match = pattern.exec(message)) !== null)\<close>. The first pass assigns
  every match; the second assigns a match only when \<open>!filters[fieldName]\<close> holds. Both
  assign to a property of a plain object.
\<close>

function where_pass ::
  "(string \<Rightarrow> number option) \<Rightarrow> string \<Rightarrow> (string \<times> filter_value) list
     \<Rightarrow> (string \<times> filter_value) list" where
  "where_pass Number [] filters' = filters'"
| "where_pass Number (c # cs) filters' =
     (case match_where (c # cs) of
        Some (fieldName, fieldValue, rest) \<Rightarrow>
          where_pass Number rest (obj_assign filters' fieldName (parse_value Number fieldValue))
      | None \<Rightarrow> where_pass Number cs filters')"
  by pat_completeness auto
termination
  by (relation "measure (\<lambda>(Number, s, filters'). length s)")
     (auto dest: match_where_length)

function eq_pass ::
  "(string \<Rightarrow> number option) \<Rightarrow> string \<Rightarrow> (string \<times> filter_value) list
     \<Rightarrow> (string \<times> filter_value) list" where
  "eq_pass Number [] filters' = filters'"
| "eq_pass Number (c # cs) filters' =
     (case match_eq (c # cs) of
        Some (fieldName, fieldValue, rest) \<Rightarrow>
          eq_pass Number rest
            (if not_set filters' fieldName
             then obj_assign filters' fieldName (parse_value Number fieldValue)
             else filters')
      | None \<Rightarrow> eq_pass Number cs filters')"
  by pat_completeness auto
termination
  by (relation "measure (\<lambda>(Number, s, filters'). length s)")
     (auto dest: match_eq_length)

definition extractFilters ::
  "(string \<Rightarrow> number option) \<Rightarrow> string \<Rightarrow> (string \<times> filter_value) list" where
  "extractFilters Number message = eq_pass Number message (where_pass Number message [])"

section \<open>Serialisation and substrings\<close>

text \<open>
  \<open>str_includes\<close> is the contiguous-sublist relation. A token that starts with \<open>$\<close> and
  continues with lower-case letters occurs in the serialised text exactly when it occurs in a
  property name or in a string value: the punctuation, the literals and the digits of the
  serialisation contain no \<open>$\<close>, an escape sequence starts with a backslash, and a string
  body ends at a double quote.
\<close>

lemma str_includes_sublist: "str_includes s t \<longleftrightarrow> sublist t s"
  by (induction s) (auto simp: sublist_Cons_right)

lemma digit_char_in: "digit_char d \<in> set ''0123456789abcdef''"
proof -
  have "d mod 16 < length ''0123456789abcdef''" by simp
  then show ?thesis unfolding digit_char_def by (rule nth_mem)
qed

lemma digit_char_not_dollar: "digit_char d \<noteq> CHR ''$''"
  using digit_char_in [of d] by auto

lemma escape_dollar: "CHR ''$'' \<in> set (escape_char c) \<Longrightarrow> c = CHR ''$''"
  by (auto simp: escape_char_def digit_char_not_dollar digit_char_not_dollar [symmetric]
      split: if_splits)

lemma escape_plain:
  "c = CHR ''$'' \<or> c \<in> lower_letters \<Longrightarrow> escape_char c = [c]"
  by (auto simp: escape_char_def lower_letters_def)

lemma escape_shape: "escape_char c = [c] \<or> (\<exists>tl. escape_char c = CHR 0x5C # tl)"
  by (simp add: escape_char_def)

lemma skip_free_prefix: "x \<notin> set a \<Longrightarrow> sublist (x # r) (a @ b) \<Longrightarrow> sublist (x # r) b"
  by (induction a) (auto simp: sublist_Cons_right)

lemma no_straddle:
  assumes "c \<notin> set t" "sublist t (xs @ c # ys)"
  shows "sublist t xs \<or> sublist t ys"
proof -
  from assms(2) consider "sublist t xs" | "sublist t (c # ys)"
    | t1 t2 where "t = t1 @ t2" "suffix t1 xs" "prefix t2 (c # ys)"
    by (auto simp: sublist_append)
  then show ?thesis
  proof cases
    case 1 then show ?thesis by simp
  next
    case 2
    with assms(1) show ?thesis by (cases t) (auto simp: sublist_Cons_right)
  next
    case 3
    with assms(1) show ?thesis by (cases t2) auto
  qed
qed

lemma prefix_escaped:
  "set r \<subseteq> lower_letters \<Longrightarrow> prefix r (concat (map escape_char cs)) \<Longrightarrow> prefix r cs"
proof (induction r arbitrary: cs)
  case Nil then show ?case by simp
next
  case (Cons x r)
  show ?case
  proof (cases cs)
    case Nil with Cons.prems show ?thesis by simp
  next
    case (Cons c cs')
    from escape_shape [of c] show ?thesis
    proof
      assume "escape_char c = [c]"
      with Cons.prems Cons Cons.IH [of cs'] show ?thesis by simp
    next
      assume "\<exists>tl. escape_char c = CHR 0x5C # tl"
      moreover from Cons.prems(1) have "x \<noteq> CHR 0x5C" by (auto simp: lower_letters_def)
      ultimately show ?thesis using Cons.prems(2) Cons by auto
    qed
  qed
qed

lemma sublist_escaped:
  assumes "set r \<subseteq> lower_letters"
  shows "sublist (CHR ''$'' # r) (concat (map escape_char s)) \<Longrightarrow> sublist (CHR ''$'' # r) s"
proof (induction s)
  case Nil then show ?case by simp
next
  case (Cons c s)
  show ?case
  proof (cases "c = CHR ''$''")
    case True
    then have "escape_char c = [c]" by (simp add: escape_plain)
    with Cons.prems have "prefix (CHR ''$'' # r) (c # concat (map escape_char s))
        \<or> sublist (CHR ''$'' # r) (concat (map escape_char s))"
      by (simp add: sublist_Cons_right)
    then show ?thesis
    proof
      assume "prefix (CHR ''$'' # r) (c # concat (map escape_char s))"
      with True have "prefix r (concat (map escape_char s))" by simp
      with assms have "prefix r s" by (rule prefix_escaped)
      with True show ?thesis by (simp add: sublist_Cons_right)
    next
      assume "sublist (CHR ''$'' # r) (concat (map escape_char s))"
      with Cons.IH show ?thesis by (simp add: sublist_Cons_right)
    qed
  next
    case False
    then have "CHR ''$'' \<notin> set (escape_char c)" using escape_dollar by blast
    with Cons.prems have "sublist (CHR ''$'' # r) (concat (map escape_char s))"
      by (simp add: skip_free_prefix)
    with Cons.IH show ?thesis by (simp add: sublist_Cons_right)
  qed
qed

lemma escaped_sublist:
  assumes "set t \<subseteq> insert (CHR ''$'') (lower_letters)" "sublist t s"
  shows "sublist t (concat (map escape_char s))"
proof -
  from assms(2) obtain ps ss where s: "s = ps @ t @ ss" by (auto simp: sublist_def)
  have "concat (map escape_char t) = t"
    using assms(1) by (induction t) (simp_all add: escape_plain)
  then show ?thesis by (simp add: s)
qed

lemma show_nat_no_dollar: "CHR ''$'' \<notin> set (show_nat n)"
proof (induction n rule: show_nat.induct)
  case (1 n)
  show ?case
  proof (cases "n < 10")
    case True
    then show ?thesis by (subst show_nat.simps) (simp add: digit_char_not_dollar [symmetric])
  next
    case False
    with 1 show ?thesis by (subst show_nat.simps) (simp add: digit_char_not_dollar [symmetric])
  qed
qed

lemma show_int_no_dollar: "CHR ''$'' \<notin> set (show_int i)"
  by (simp add: show_int_def show_nat_no_dollar)

lemma join_comma_Cons:
  "join_comma (x # ys) = (if ys = [] then x else x @ CHR '','' # join_comma ys)"
  by (cases ys) simp_all

lemma stringify_elems_Nil [simp]: "stringify_elems xs = [] \<longleftrightarrow> xs = []"
  by (cases xs) simp_all

lemma stringify_members_Nil [simp]: "stringify_members kvs = [] \<longleftrightarrow> kvs = []"
  by (cases kvs) simp_all

lemma quote_sublist:
  assumes r: "set r \<subseteq> lower_letters"
    and s: "sublist (CHR ''$'' # r) (quote s @ rest)"
  shows "sublist (CHR ''$'' # r) s \<or> sublist (CHR ''$'' # r) rest"
proof -
  have q: "quote s @ rest = [CHR 0x22] @ (concat (map escape_char s) @ CHR 0x22 # rest)"
    by (simp add: quote_def)
  have "sublist (CHR ''$'' # r) (concat (map escape_char s) @ CHR 0x22 # rest)"
    by (rule skip_free_prefix [of _ "[CHR 0x22]"]) (use s q in simp_all)
  moreover from r have "CHR 0x22 \<notin> set (CHR ''$'' # r)" by (auto simp: lower_letters_def)
  ultimately have "sublist (CHR ''$'' # r) (concat (map escape_char s))
      \<or> sublist (CHR ''$'' # r) rest"
    by (rule no_straddle [rotated])
  then show ?thesis
  proof
    assume "sublist (CHR ''$'' # r) (concat (map escape_char s))"
    with r have "sublist (CHR ''$'' # r) s" by (rule sublist_escaped)
    then show ?thesis ..
  next
    assume "sublist (CHR ''$'' # r) rest"
    then show ?thesis ..
  qed
qed

lemma mentioned_simps [simp]:
  "mentioned t [] = False"
  "mentioned t (s # ss) = (sublist t s \<or> mentioned t ss)"
  "mentioned t (ss @ ss') = (mentioned t ss \<or> mentioned t ss')"
  by (auto simp: mentioned_def str_includes_sublist list_ex_iff)

lemma stringify_sublist_rest:
  assumes r: "set r \<subseteq> lower_letters"
  shows "sublist (CHR ''$'' # r) (stringify j @ rest) \<Longrightarrow>
           mentioned (CHR ''$'' # r) (json_keys j) \<or> mentioned (CHR ''$'' # r) (json_strings j)
           \<or> sublist (CHR ''$'' # r) rest"
    and "sublist (CHR ''$'' # r) (join_comma (stringify_elems xs) @ rest) \<Longrightarrow>
           mentioned (CHR ''$'' # r) (json_keys_elems xs)
           \<or> mentioned (CHR ''$'' # r) (json_strings_elems xs)
           \<or> sublist (CHR ''$'' # r) rest"
    and "sublist (CHR ''$'' # r) (join_comma (stringify_members kvs) @ rest) \<Longrightarrow>
           mentioned (CHR ''$'' # r) (json_keys_members kvs)
           \<or> mentioned (CHR ''$'' # r) (json_strings_members kvs)
           \<or> sublist (CHR ''$'' # r) rest"
proof (induction j and xs and kvs arbitrary: rest and rest and rest
    rule: stringify_stringify_elems_stringify_members.induct)
  case 1
  then show ?case using skip_free_prefix [of "CHR ''$''" "''null''" r rest] by simp
next
  case (2 b)
  then show ?case
    using skip_free_prefix [of "CHR ''$''" "''true''" r rest]
      skip_free_prefix [of "CHR ''$''" "''false''" r rest]
    by (cases b) simp_all
next
  case (3 n)
  then show ?case using skip_free_prefix [of "CHR ''$''" "show_int n" r rest]
    by (simp add: show_int_no_dollar)
next
  case (4 s)
  then show ?case using quote_sublist [OF r, of s rest] by auto
next
  case (5 xs)
  from "5.prems" have "sublist (CHR ''$'' # r) (join_comma (stringify_elems xs) @ CHR '']'' # rest)"
    by (simp add: sublist_Cons_right)
  from "5.IH" [OF this] show ?case by (auto simp: sublist_Cons_right)
next
  case (6 kvs)
  from "6.prems" have "sublist (CHR ''$'' # r) (join_comma (stringify_members kvs) @ CHR ''}'' # rest)"
    by (simp add: sublist_Cons_right)
  from "6.IH" [OF this] show ?case by (auto simp: sublist_Cons_right)
next
  case 7
  then show ?case by simp
next
  case (8 x xs)
  show ?case
  proof (cases "xs = []")
    case True
    with "8.prems" "8.IH"(1) [of rest] show ?thesis by auto
  next
    case False
    with "8.prems" have "sublist (CHR ''$'' # r)
        (stringify x @ CHR '','' # join_comma (stringify_elems xs) @ rest)"
      by (simp add: join_comma_Cons)
    from "8.IH"(1) [OF this] "8.IH"(2) [of rest] show ?thesis
      by (auto simp: sublist_Cons_right)
  qed
next
  case 9
  then show ?case by simp
next
  case (10 kv kvs)
  have split: "sublist (CHR ''$'' # r) (quote (fst kv) @ CHR '':'' # stringify (snd kv) @ rest')
      \<Longrightarrow> sublist (CHR ''$'' # r) (fst kv)
          \<or> mentioned (CHR ''$'' # r) (json_keys (snd kv))
          \<or> mentioned (CHR ''$'' # r) (json_strings (snd kv))
          \<or> sublist (CHR ''$'' # r) rest'" for rest'
    using quote_sublist [OF r, of "fst kv" "CHR '':'' # stringify (snd kv) @ rest'"]
      "10.IH"(1) [of rest']
    by (auto simp: sublist_Cons_right)
  show ?case
  proof (cases "kvs = []")
    case True
    with "10.prems" split [of rest] show ?thesis by auto
  next
    case False
    with "10.prems" have "sublist (CHR ''$'' # r)
        (quote (fst kv) @ CHR '':'' # stringify (snd kv)
           @ CHR '','' # join_comma (stringify_members kvs) @ rest)"
      by (simp add: join_comma_Cons)
    from split [OF this] "10.IH"(2) [of rest] show ?thesis
      by (auto simp: sublist_Cons_right)
  qed
qed

lemma sublist_ctx: "sublist t x \<Longrightarrow> sublist t (a @ x @ b)"
  by (meson sublist_appendI sublist_order.order.trans)

lemma sublist_ctx_left: "sublist t x \<Longrightarrow> sublist t (a @ x)"
  using sublist_ctx [of t x a "[]"] by simp

lemma sublist_ctx_right: "sublist t x \<Longrightarrow> sublist t (x @ b)"
  using sublist_ctx [of t x "[]" b] by simp

lemma sublist_ctx_Cons: "sublist t x \<Longrightarrow> sublist t (c # x)"
  using sublist_ctx [of t x "[c]" "[]"] by simp

lemma sublist_quote:
  assumes "set t \<subseteq> insert (CHR ''$'') (lower_letters)" "sublist t s"
  shows "sublist t (quote s)"
  unfolding quote_def
  by (rule sublist_ctx_Cons, rule sublist_ctx_right, rule escaped_sublist [OF assms])

lemma join_comma_sublist_hd: "sublist t x \<Longrightarrow> sublist t (join_comma (x # ys))"
  by (simp add: join_comma_Cons sublist_ctx_right)

lemma join_comma_sublist_tl: "sublist t (join_comma ys) \<Longrightarrow> sublist t (join_comma (x # ys))"
proof (cases "ys = []")
  case True
  assume "sublist t (join_comma ys)"
  with True show ?thesis by simp
next
  case False
  assume "sublist t (join_comma ys)"
  then have "sublist t (x @ CHR '','' # join_comma ys)"
    by (intro sublist_ctx_left sublist_ctx_Cons)
  with False show ?thesis by (simp add: join_comma_Cons)
qed

lemma mentioned_stringify:
  assumes t: "set t \<subseteq> insert (CHR ''$'') (lower_letters)"
  shows "mentioned t (json_keys j) \<or> mentioned t (json_strings j) \<Longrightarrow> sublist t (stringify j)"
    and "mentioned t (json_keys_elems xs) \<or> mentioned t (json_strings_elems xs)
           \<Longrightarrow> sublist t (join_comma (stringify_elems xs))"
    and "mentioned t (json_keys_members kvs) \<or> mentioned t (json_strings_members kvs)
           \<Longrightarrow> sublist t (join_comma (stringify_members kvs))"
proof (induction j and xs and kvs rule: stringify_stringify_elems_stringify_members.induct)
  case 1 then show ?case by simp
next
  case 2 then show ?case by simp
next
  case 3 then show ?case by simp
next
  case (4 s)
  then have "sublist t s" by simp
  then show ?case using sublist_quote [OF t] by simp
next
  case (5 xs)
  then have "sublist t (join_comma (stringify_elems xs))" by simp
  then have "sublist t (CHR ''['' # join_comma (stringify_elems xs) @ '']'')"
    by (intro sublist_ctx_Cons sublist_ctx_right)
  then show ?case by simp
next
  case (6 kvs)
  then have "sublist t (join_comma (stringify_members kvs))" by simp
  then have "sublist t (CHR ''{'' # join_comma (stringify_members kvs) @ ''}'')"
    by (intro sublist_ctx_Cons sublist_ctx_right)
  then show ?case by simp
next
  case 7 then show ?case by simp
next
  case (8 x xs)
  from "8.prems" consider "mentioned t (json_keys x) \<or> mentioned t (json_strings x)"
    | "mentioned t (json_keys_elems xs) \<or> mentioned t (json_strings_elems xs)"
    by auto
  then show ?case
  proof cases
    case 1
    then have "sublist t (stringify x)" by (rule "8.IH"(1))
    then show ?thesis by (simp add: join_comma_sublist_hd del: join_comma.simps)
  next
    case 2
    then have "sublist t (join_comma (stringify_elems xs))" by (rule "8.IH"(2))
    then show ?thesis by (simp add: join_comma_sublist_tl del: join_comma.simps)
  qed
next
  case 9 then show ?case by simp
next
  case (10 kv kvs)
  from "10.prems" consider "sublist t (fst kv)"
    | "mentioned t (json_keys (snd kv)) \<or> mentioned t (json_strings (snd kv))"
    | "mentioned t (json_keys_members kvs) \<or> mentioned t (json_strings_members kvs)"
    by auto
  then show ?case
  proof cases
    case 1
    then have "sublist t (quote (fst kv))" by (rule sublist_quote [OF t])
    then have "sublist t (quote (fst kv) @ CHR '':'' # stringify (snd kv))"
      by (rule sublist_ctx_right)
    then show ?thesis by (simp add: join_comma_sublist_hd del: join_comma.simps)
  next
    case 2
    then have "sublist t (stringify (snd kv))" by (rule "10.IH"(1))
    then have "sublist t (quote (fst kv) @ CHR '':'' # stringify (snd kv))"
      by (intro sublist_ctx_left sublist_ctx_Cons)
    then show ?thesis by (simp add: join_comma_sublist_hd del: join_comma.simps)
  next
    case 3
    then have "sublist t (join_comma (stringify_members kvs))" by (rule "10.IH"(2))
    then show ?thesis by (simp add: join_comma_sublist_tl del: join_comma.simps)
  qed
qed

lemma operator_tokenE:
  assumes "operator_token t"
  obtains r where "t = CHR ''$'' # r" "set r \<subseteq> lower_letters"
proof (cases t)
  case Nil
  with assms show ?thesis by (simp add: operator_token_def)
next
  case (Cons d r)
  with assms have "d = CHR ''$''" "set r \<subseteq> lower_letters"
    unfolding operator_token_def by simp_all
  with Cons that show ?thesis by blast
qed

lemma stringify_includes_token:
  assumes "operator_token t"
  shows "str_includes (stringify j) t \<longleftrightarrow> mentioned t (json_keys j) \<or> mentioned t (json_strings j)"
proof -
  from assms obtain r where t: "t = CHR ''$'' # r" and r: "set r \<subseteq> lower_letters"
    by (rule operator_tokenE)
  from r have t': "set t \<subseteq> insert (CHR ''$'') (lower_letters)"
    unfolding t by auto
  have "sublist t (stringify j) \<Longrightarrow> mentioned t (json_keys j) \<or> mentioned t (json_strings j)"
    using stringify_sublist_rest(1) [OF r, of j "[]"] unfolding t by simp
  moreover have "mentioned t (json_keys j) \<or> mentioned t (json_strings j) \<Longrightarrow> sublist t (stringify j)"
    by (rule mentioned_stringify(1) [OF t'])
  ultimately show ?thesis unfolding str_includes_sublist by blast
qed

section \<open>Facts about the generator\<close>

lemma includes_any_iff: "includes_any s ts \<longleftrightarrow> (\<exists>t\<in>set ts. str_includes s t)"
  by (simp add: includes_any_def list_ex_iff)

lemma validateQuery_fst:
  "fst (validateQuery q coll) \<longleftrightarrow>
     qtype q \<in> set [''count'', ''find'', ''aggregate'']
     \<and> (\<forall>qq. query q = Some qq \<and> truthy qq \<longrightarrow> \<not> includes_any (stringify qq) query_tokens)
     \<and> (\<forall>p. pipeline q = Some p \<longrightarrow> \<not> includes_any (stringify (JArr p)) pipeline_tokens)"
  unfolding validateQuery_def Let_def
  by (cases "query q"; cases "pipeline q") auto

lemma validateQuery_ignores_verdict:
  "validateQuery (q \<lparr> isValid := b, validationErrors := es \<rparr>) coll = validateQuery q coll"
  by (simp add: validateQuery_def)

lemma generateQuery_resolved:
  assumes "collection intent = Some c" "c \<noteq> []" "find_collection (cache_collections sc) c = Some coll"
  shows "generateQuery intent sc =
    (generate_by_type intent coll)
      \<lparr> isValid := fst (validateQuery (generate_by_type intent coll) coll),
        validationErrors := snd (validateQuery (generate_by_type intent coll) coll) \<rparr>"
  using assms by (cases c) (simp_all add: generateQuery_def Let_def)

lemma isValid_resolved:
  assumes "collection intent = Some c" "c \<noteq> []" "find_collection (cache_collections sc) c = Some coll"
  shows "isValid (generateQuery intent sc) = fst (validateQuery (generate_by_type intent coll) coll)"
  by (subst generateQuery_resolved [OF assms]) simp

lemma operator_tokens:
  "t \<in> set query_tokens \<Longrightarrow> operator_token t"
  "t \<in> set pipeline_tokens \<Longrightarrow> operator_token t"
  by (auto simp: query_tokens_def pipeline_tokens_def operator_token_def lower_letters_def)

lemma generate_by_type_not_aggregate:
  assumes "itype intent \<noteq> Aggregate"
  shows "qtype (generate_by_type intent coll) \<in> set [''count'', ''find'', ''aggregate'']"
    "query (generate_by_type intent coll) = Some (JObj (filters_or_empty intent))"
    "pipeline (generate_by_type intent coll) = None"
  using assms
  by (cases "itype intent";
      simp add: generate_by_type_def generateCountQuery_def generateFindQuery_def)+

lemma generate_by_type_aggregate:
  assumes "itype intent = Aggregate"
  shows "qtype (generate_by_type intent coll) = ''aggregate''"
    "query (generate_by_type intent coll) = None"
    "pipeline (generate_by_type intent coll) =
       Some (match_stage intent @ group_stage intent
             @ [JObj [(''$limit'', JNum (limit_or intent 100))]])"
  using assms by (simp_all add: generate_by_type_def generateAggregateQuery_def)

lemma json_keys_elems_append [simp]:
  "json_keys_elems (xs @ ys) = json_keys_elems xs @ json_keys_elems ys"
  by (induction xs) simp_all

lemma json_strings_elems_append [simp]:
  "json_strings_elems (xs @ ys) = json_strings_elems xs @ json_strings_elems ys"
  by (induction xs) simp_all

lemma obj_set_keys: "fst ` set (obj_set kvs k v) = insert k (fst ` set kvs)"
proof (induction kvs)
  case Nil
  show ?case by simp
next
  case (Cons kv kvs)
  obtain k' v' where kv: "kv = (k', v')" by (cases kv)
  show ?case using Cons by (cases "k' = k") (auto simp: kv)
qed

lemma obj_set_values: "snd ` set (obj_set kvs k v) \<subseteq> insert v (snd ` set kvs)"
proof (induction kvs)
  case Nil
  show ?case by simp
next
  case (Cons kv kvs)
  obtain k' v' where kv: "kv = (k', v')" by (cases kv)
  show ?case using Cons by (cases "k' = k") (auto simp: kv)
qed

lemma obj_set_distinct: "distinct (map fst kvs) \<Longrightarrow> distinct (map fst (obj_set kvs k v))"
  by (induction kvs) (auto simp: obj_set_keys)

lemma obj_set_length: "length (obj_set kvs k v) \<le> Suc (length kvs)"
  by (induction kvs) auto

lemma obj_set_nonempty: "obj_set kvs k v \<noteq> []"
  by (induction kvs k v rule: obj_set.induct) auto

lemma obj_get_None_iff: "obj_get kvs k = None \<longleftrightarrow> k \<notin> fst ` set kvs"
  by (induction kvs k rule: obj_get.induct) auto

lemma insert_index_set: "set (insert_index kvs k v) = insert (k, v) (set kvs)"
  by (induction kvs k v rule: insert_index.induct) auto

lemma insert_index_length: "length (insert_index kvs k v) = Suc (length kvs)"
  by (induction kvs k v rule: insert_index.induct) auto

lemma insert_index_distinct:
  "distinct (map fst kvs) \<Longrightarrow> k \<notin> fst ` set kvs \<Longrightarrow> distinct (map fst (insert_index kvs k v))"
  by (induction kvs k v rule: insert_index.induct) (auto simp: insert_index_set)

lemma obj_assign_keys:
  "fst ` set (obj_assign kvs k v) =
     (if k = ''__proto__'' then fst ` set kvs else insert k (fst ` set kvs))"
  by (simp add: obj_assign_def insert_index_set obj_set_keys)

lemma obj_assign_values: "snd ` set (obj_assign kvs k v) \<subseteq> insert v (snd ` set kvs)"
  using obj_set_values [of kvs k v] by (auto simp: obj_assign_def insert_index_set)

lemma obj_assign_distinct:
  "distinct (map fst kvs) \<Longrightarrow> distinct (map fst (obj_assign kvs k v))"
  by (simp add: obj_assign_def obj_set_distinct insert_index_distinct obj_get_None_iff)

lemma obj_assign_length: "length (obj_assign kvs k v) \<le> Suc (length kvs)"
  using obj_set_length [of kvs k v] by (simp add: obj_assign_def insert_index_length)

lemma foldl_obj_assign:
  "fst ` set (foldl (\<lambda>proj n. obj_assign proj n v) acc ns)
     = fst ` set acc \<union> (set ns - {''__proto__''})"
  "snd ` set (foldl (\<lambda>proj n. obj_assign proj n v) acc ns) \<subseteq> insert v (snd ` set acc)"
  "distinct (map fst acc) \<Longrightarrow> distinct (map fst (foldl (\<lambda>proj n. obj_assign proj n v) acc ns))"
  "length (foldl (\<lambda>proj n. obj_assign proj n v) acc ns) \<le> length acc + length ns"
proof (induction ns arbitrary: acc)
  case Nil
  { case 1 show ?case by simp }
  { case 2 show ?case by auto }
  { case 3 then show ?case by simp }
  { case 4 show ?case by simp }
next
  case (Cons n ns)
  { case 1 show ?case by (auto simp add: Cons.IH(1) obj_assign_keys) }
  { case 2 show ?case
      using Cons.IH(2) [of "obj_assign acc n v"] obj_assign_values [of acc n v] by auto }
  { case 3 then show ?case by (simp add: Cons.IH(3) obj_assign_distinct) }
  { case 4 show ?case
      using Cons.IH(4) [of "obj_assign acc n v"] obj_assign_length [of acc n v] by simp }
qed

lemma project_all_props:
  "fst ` set (project_all ns) = set ns - {''__proto__''}"
  "snd ` set (project_all ns) \<subseteq> {1}"
  "distinct (map fst (project_all ns))"
  "length (project_all ns) \<le> length ns"
  unfolding project_all_def
  using foldl_obj_assign [where v = 1 and acc = "[]" and ns = ns] by simp_all

lemma project_all_set:
  "set (project_all ns) = (\<lambda>n. (n, 1)) ` (set ns - {''__proto__''})"
proof (rule set_eqI)
  fix kv :: "string \<times> int"
  obtain k v where kv: "kv = (k, v)" by (cases kv)
  show "kv \<in> set (project_all ns) \<longleftrightarrow> kv \<in> (\<lambda>n. (n, 1)) ` (set ns - {''__proto__''})"
  proof
    assume m: "kv \<in> set (project_all ns)"
    then have "fst kv \<in> fst ` set (project_all ns)" and "snd kv \<in> snd ` set (project_all ns)"
      by (rule imageI)+
    then have "k \<in> set ns - {''__proto__''}" and "v = 1"
      using project_all_props(2) [of ns] unfolding project_all_props(1) kv by auto
    then show "kv \<in> (\<lambda>n. (n, 1)) ` (set ns - {''__proto__''})"
      unfolding kv by (rule_tac image_eqI [where x = k]) simp_all
  next
    assume "kv \<in> (\<lambda>n. (n, 1)) ` (set ns - {''__proto__''})"
    then have k: "k \<in> set ns - {''__proto__''}" and v: "v = 1" unfolding kv by auto
    from k have "k \<in> fst ` set (project_all ns)" unfolding project_all_props(1) .
    then obtain v' where m: "(k, v') \<in> set (project_all ns)" by auto
    then have "snd (k, v') \<in> snd ` set (project_all ns)" by (rule imageI)
    then have "v' = 1" using project_all_props(2) [of ns] by auto
    with m v show "kv \<in> set (project_all ns)" unfolding kv by simp
  qed
qed

lemma generateQuery_options:
  assumes "collection intent = Some c" "c \<noteq> []" "find_collection (cache_collections sc) c = Some coll"
  shows "options (generateQuery intent sc) = options (generate_by_type intent coll)"
  using assms by (cases c) (simp_all add: generateQuery_def Let_def)

section \<open>Facts about the pool operations\<close>

lemma obj_get_set [simp]: "obj_get (obj_set kvs k v) k' = (if k' = k then Some v else obj_get kvs k')"
  by (induction kvs k v rule: obj_set.induct) auto

lemma obj_set_existing_keys: "obj_get kvs k = Some e \<Longrightarrow> map fst (obj_set kvs k v) = map fst kvs"
  by (induction kvs k v rule: obj_set.induct) (auto split: if_splits)


lemma obj_get_filter:
  "obj_get (filter (\<lambda>kp. P (snd kp)) kvs) k = Some v \<Longrightarrow> P v"
  by (induction kvs) (auto split: if_splits)


lemma getConnection_new:
  assumes "cs \<noteq> []" "obj_get (pools st) (hashConnectionString cs) = None"
  shows "getConnection cs now True st =
     (Inr (nextClient st),
      st \<lparr> pools := obj_set (pools st) (hashConnectionString cs)
              \<lparr> client = nextClient st, lastUsed = now, refCount = 1 \<rparr>,
           nextClient := Suc (nextClient st) \<rparr>)"
  using assms by (simp add: getConnection_def)

lemma getConnection_existing:
  assumes "cs \<noteq> []" "obj_get (pools st) (hashConnectionString cs) = Some e"
  shows "getConnection cs now ok st =
     (Inr (client e),
      st \<lparr> pools := obj_set (pools st) (hashConnectionString cs)
              (e \<lparr> refCount := refCount e + 1, lastUsed := now \<rparr>) \<rparr>)"
  using assms by (simp add: getConnection_def)

lemma releaseConnection_existing:
  assumes "obj_get (pools st) (hashConnectionString cs) = Some e"
  shows "releaseConnection cs now st =
      st \<lparr> pools := obj_set (pools st) (hashConnectionString cs)
              (e \<lparr> refCount := refCount e - 1, lastUsed := now \<rparr>) \<rparr>"
  using assms by (simp add: releaseConnection_def)

lemma releaseConnection_closed: "closed (releaseConnection cs now st) = closed st"
  by (simp add: releaseConnection_def Let_def split: option.splits)

lemma releaseConnection_keys: "map fst (pools (releaseConnection cs now st)) = map fst (pools st)"
  by (auto simp: releaseConnection_def Let_def obj_set_existing_keys split: option.splits)













section \<open>Facts about the confidence arithmetic\<close>

text \<open>
  The five constants have 53-bit significands and lie within half a unit in the last place of
  the decimal literals of the source, so they are the doubles those literals denote. The
  seven sums are all the additions that \<open>calculateConfidence\<close> can perform.
\<close>

lemma double_constants:
  "double_value D_0_5 = 1 / 2" "double_value D_1 = 1"
  "\<bar>double_value D_0_3 - 3 / 10\<bar> \<le> 1 / 2 ^ 55"
  "\<bar>double_value D_0_15 - 15 / 100\<bar> \<le> 1 / 2 ^ 56"
  "\<bar>double_value D_0_2 - 2 / 10\<bar> \<le> 1 / 2 ^ 56"
  by (simp_all add: double_value_def D_0_5_def D_1_def D_0_3_def D_0_15_def D_0_2_def)

lemma double_constants_representable:
  "round53 D_0_5 = D_0_5" "round53 D_0_3 = D_0_3" "round53 D_0_15 = D_0_15"
  "round53 D_0_2 = D_0_2" "round53 D_1 = D_1"
  by code_simp+

lemma double_sums:
  "dadd D_0_5 D_0_3 = 28823037615171176"
  "dadd D_0_5 D_0_15 = 23418718062326580"
  "dadd 23418718062326580 D_0_15 = 28823037615171176"
  "dadd 28823037615171176 D_0_15 = 34227357168015772"
  "dadd 34227357168015772 D_0_15 = 39631676720860368"
  "dadd 34227357168015772 D_0_2 = 41433116571808568"
  "dadd 39631676720860368 D_0_2 = 46837436124653160"
  by code_simp+

lemma confidence_table:
  "calculateConfidence ty cs fs =
     (if cs = []
      then (if fs = []
            then (if ty = General then 18014398509481984 else 23418718062326580)
            else (if ty = General then 23418718062326580 else 28823037615171176))
      else (if fs = []
            then (if ty = General then 28823037615171176
                  else if ty = Find then 36028797018963968 else 34227357168015772)
            else (if ty = General then 34227357168015772 else 36028797018963968)))"
  by (cases ty; cases "cs = []"; cases "fs = []")
     (simp_all add: calculateConfidence_def double_sums, simp_all add: D_1_def D_0_5_def)

lemma confidence_value_table:
  "double_value (calculateConfidence ty cs fs) =
     (if cs = []
      then (if fs = []
            then (if ty = General then 1 / 2 else 5854679515581645 / 2 ^ 53)
            else (if ty = General then 5854679515581645 / 2 ^ 53 else 7205759403792794 / 2 ^ 53))
      else (if fs = []
            then (if ty = General then 7205759403792794 / 2 ^ 53
                  else if ty = Find then 1 else 8556839292003943 / 2 ^ 53)
            else (if ty = General then 8556839292003943 / 2 ^ 53 else 1)))"
  unfolding confidence_table double_value_def by simp

lemma confidence_near_decimal_sum:
  "\<bar>double_value (calculateConfidence ty cs fs)
      - min 1 (1 / 2 + (if cs \<noteq> [] then 3 / 10 else 0) + (if fs \<noteq> [] then 15 / 100 else 0)
                 + (if ty \<noteq> General then 15 / 100 else 0)
                 + (if ty = Find \<and> cs \<noteq> [] then 2 / 10 else 0))\<bar> \<le> 1 / 2 ^ 53"
  unfolding confidence_value_table
  by (cases "ty = General"; cases "ty = Find"; cases "cs = []"; cases "fs = []") simp_all

section \<open>Facts about the relationship detector\<close>

text \<open>
  \<open>dedup_from\<close> keeps, for every key, the first relationship with that key. A key
  determines the triple of a relationship when the names joined by \<open>-\<close> contain no
  \<open>-\<close> themselves. All relationships of one collection are pushed together, so when the
  collection names are distinct the first relationship with a given key is found inside the
  block of a single collection, wherever that block stands.
\<close>

lemma dedup_from_set:
  "set (dedup_from seen rs) =
     {r \<in> set rs. relationship_key r \<notin> set seen
        \<and> find (\<lambda>x. relationship_key x = relationship_key r) rs = Some r}"
proof (induction rs arbitrary: seen)
  case Nil
  show ?case by simp
next
  case (Cons r rs)
  show ?case
  proof (cases "relationship_key r \<in> set seen")
    case True
    then show ?thesis by (auto simp: Cons.IH)
  next
    case False
    then show ?thesis by (auto simp: Cons.IH)
  qed
qed

lemma dedup_from_keys:
  "distinct (map relationship_key (dedup_from seen rs))
   \<and> relationship_key ` set (dedup_from seen rs) \<inter> set seen = {}"
proof (induction rs arbitrary: seen)
  case Nil
  show ?case by simp
next
  case (Cons r rs)
  show ?case
  proof (cases "relationship_key r \<in> set seen")
    case True
    then show ?thesis using Cons.IH [of seen] by simp
  next
    case False
    then show ?thesis using Cons.IH [of "relationship_key r # seen"] by auto
  qed
qed

lemma find_append_cases:
  "find P (xs @ ys) = (case find P xs of Some x \<Rightarrow> Some x | None \<Rightarrow> find P ys)"
  by (induction xs) auto

lemma find_concat_single:
  assumes "\<forall>b \<in> set bs. b \<noteq> b0 \<longrightarrow> (\<forall>x \<in> set b. \<not> P x)" and "b0 \<in> set bs"
  shows "find P (concat bs) = find P b0"
  using assms
proof (induction bs)
  case Nil
  then show ?case by simp
next
  case (Cons b bs)
  have rest: "\<forall>b' \<in> set bs. b' \<noteq> b0 \<longrightarrow> (\<forall>x \<in> set b'. \<not> P x)"
  proof (intro ballI impI)
    fix b' x assume "b' \<in> set bs" "b' \<noteq> b0" "x \<in> set b'"
    from \<open>b' \<in> set bs\<close> have "b' \<in> set (b # bs)" by simp
    from Cons.prems(1) [rule_format, OF this \<open>b' \<noteq> b0\<close> \<open>x \<in> set b'\<close>] show "\<not> P x" .
  qed
  show ?case
  proof (cases "b = b0")
    case True
    show ?thesis
    proof (cases "find P b0")
      case (Some x)
      with True show ?thesis by (simp add: find_append_cases)
    next
      case None
      then have nb: "\<forall>x \<in> set b0. \<not> P x" by (simp add: find_None_iff)
      have "\<forall>x \<in> set (concat bs). \<not> P x"
      proof
        fix x assume "x \<in> set (concat bs)"
        then obtain b' where b': "b' \<in> set bs" "x \<in> set b'" by auto
        show "\<not> P x"
        proof (cases "b' = b0")
          case True
          with nb b'(2) show ?thesis by simp
        next
          case False
          from rest [rule_format, OF b'(1) False b'(2)] show ?thesis .
        qed
      qed
      then have "\<not> (\<exists>x. x \<in> set (concat bs) \<and> P x)" by blast
      then have "find P (concat bs) = None" by (simp only: find_None_iff not_False_eq_True)
      with None True show ?thesis by (simp add: find_append_cases)
    qed
  next
    case False
    have "b \<in> set (b # bs)" by simp
    from Cons.prems(1) [rule_format, OF this False] have "\<forall>x \<in> set b. \<not> P x" by simp
    then have "\<not> (\<exists>x. x \<in> set b \<and> P x)" by blast
    then have n: "find P b = None" by (simp only: find_None_iff not_False_eq_True)
    from False Cons.prems(2) have "b0 \<in> set bs" by auto
    with rest have "find P (concat bs) = find P b0" by (rule Cons.IH)
    with n show ?thesis by (simp add: find_append_cases)
  qed
qed

lemma split_at_hyphen:
  assumes "CHR ''-'' \<notin> set a" "CHR ''-'' \<notin> set a'" "a @ CHR ''-'' # b = a' @ CHR ''-'' # b'"
  shows "a = a' \<and> b = b'"
proof -
  have "takeWhile (\<lambda>c. c \<noteq> CHR ''-'') (a @ CHR ''-'' # b) = a"
    using assms(1) by (auto simp: takeWhile_tail takeWhile_eq_all_conv)
  moreover have "takeWhile (\<lambda>c. c \<noteq> CHR ''-'') (a' @ CHR ''-'' # b') = a'"
    using assms(2) by (auto simp: takeWhile_tail takeWhile_eq_all_conv)
  ultimately have "a = a'" using assms(3) by simp
  with assms(3) show ?thesis by simp
qed

lemma relationship_key_inj:
  assumes "CHR ''-'' \<notin> set (rfrom r)" "CHR ''-'' \<notin> set (rfrom r')"
    "CHR ''-'' \<notin> set (rto r)" "CHR ''-'' \<notin> set (rto r')"
    "relationship_key r = relationship_key r'"
  shows "rfrom r = rfrom r' \<and> rto r = rto r' \<and> rfield r = rfield r'"
proof -
  from assms(5) have e: "rfrom r @ CHR ''-'' # (rto r @ CHR ''-'' # rfield r)
      = rfrom r' @ CHR ''-'' # (rto r' @ CHR ''-'' # rfield r')"
    by (simp add: relationship_key_def)
  from split_at_hyphen [OF assms(1,2) e]
  have f: "rfrom r = rfrom r'" and "rto r @ CHR ''-'' # rfield r = rto r' @ CHR ''-'' # rfield r'"
    by simp_all
  from split_at_hyphen [OF assms(3,4) this(2)] f show ?thesis by simp
qed

lemma extractReferencedCollection_mem:
  "extractReferencedCollection n ns = Some t \<Longrightarrow> t \<in> set ns"
  by (auto simp: extractReferencedCollection_def Let_def split: if_splits)

lemma extractReferencedCollection_cong:
  "set ns = set ns' \<Longrightarrow> extractReferencedCollection n ns = extractReferencedCollection n ns'"
  by (simp add: extractReferencedCollection_def Let_def)

lemma inferCollectionFromFieldName_mem:
  "inferCollectionFromFieldName n ns = Some t \<Longrightarrow> t \<in> set ns"
  by (auto simp: inferCollectionFromFieldName_def extractReferencedCollection_mem
      split: option.splits)

lemma inferCollectionFromFieldName_cong:
  "set ns = set ns' \<Longrightarrow> inferCollectionFromFieldName n ns = inferCollectionFromFieldName n ns'"
  using extractReferencedCollection_cong [of ns ns']
  by (simp add: inferCollectionFromFieldName_def split: option.splits)

lemma field_relationships_cong:
  "set ns = set ns' \<Longrightarrow> field_relationships ns c f = field_relationships ns' c f"
  using extractReferencedCollection_cong [of ns ns'] inferCollectionFromFieldName_cong [of ns ns']
  by (simp add: field_relationships_def)

lemma collection_relationships_cong:
  "set ns = set ns' \<Longrightarrow> collection_relationships ns c = collection_relationships ns' c"
proof -
  assume "set ns = set ns'"
  then have "field_relationships ns c = field_relationships ns' c"
    by (intro ext field_relationships_cong)
  then show ?thesis by (simp add: collection_relationships_def)
qed

lemma push_if_truthy_result:
  assumes "r \<in> set (push_if_truthy c f target)"
  shows "\<exists>t. target = Some t \<and> t \<noteq> [] \<and> r = relationship c f t"
proof (cases target)
  case None
  with assms show ?thesis by (simp add: push_if_truthy_def)
next
  case (Some t)
  with assms show ?thesis by (cases "t = []") (simp_all add: push_if_truthy_def)
qed

lemma field_relationships_result:
  assumes "r \<in> set (field_relationships ns c f)"
  shows "\<exists>t. r = relationship c f t \<and> t \<in> set ns \<and> t \<noteq> []"
proof -
  from assms have
    "r \<in> set (push_if_truthy c f (extractReferencedCollection (name f) ns))
     \<or> r \<in> set (push_if_truthy c f (inferCollectionFromFieldName (name f) ns))"
    unfolding field_relationships_def set_append Un_iff
    by (cases "COLLECTION_REFERENCE (name f)"; cases "type f = ''objectId'' \<and> name f \<noteq> ''_id''")
      simp_all
  then show ?thesis
  proof
    assume "r \<in> set (push_if_truthy c f (extractReferencedCollection (name f) ns))"
    from push_if_truthy_result [OF this] obtain t
      where t: "extractReferencedCollection (name f) ns = Some t" "t \<noteq> []" "r = relationship c f t"
      by blast
    from t(1) have "t \<in> set ns" by (rule extractReferencedCollection_mem)
    with t(2,3) show ?thesis by blast
  next
    assume "r \<in> set (push_if_truthy c f (inferCollectionFromFieldName (name f) ns))"
    from push_if_truthy_result [OF this] obtain t
      where t: "inferCollectionFromFieldName (name f) ns = Some t" "t \<noteq> []" "r = relationship c f t"
      by blast
    from t(1) have "t \<in> set ns" by (rule inferCollectionFromFieldName_mem)
    with t(2,3) show ?thesis by blast
  qed
qed

lemma field_relationships_from_to:
  assumes "r \<in> set (field_relationships ns c f)"
  shows "rfrom r = cname c \<and> rto r \<in> set ns"
proof -
  from field_relationships_result [OF assms]
  obtain t where "r = relationship c f t" "t \<in> set ns" by blast
  then show ?thesis by (simp add: relationship_def)
qed

lemma collection_relationships_from_to:
  assumes "r \<in> set (collection_relationships ns c)"
  shows "rfrom r = cname c \<and> rto r \<in> set ns"
proof -
  from assms obtain f where "r \<in> set (field_relationships ns c f)"
    unfolding collection_relationships_def by auto
  then show ?thesis by (rule field_relationships_from_to)
qed

lemma find_in_own_block:
  assumes inj: "inj_on cname (set cs)"
    and hy: "\<forall>c \<in> set cs. CHR ''-'' \<notin> set (cname c)"
    and ns: "set ns = cname ` set cs"
    and sub: "set cs' \<subseteq> set cs"
    and c0: "c0 \<in> set cs'"
    and r: "r \<in> set (collection_relationships ns c0)"
  shows "find (\<lambda>x. relationship_key x = relationship_key r)
           (concat (map (collection_relationships ns) cs'))
         = find (\<lambda>x. relationship_key x = relationship_key r) (collection_relationships ns c0)"
proof (rule find_concat_single)
  show "collection_relationships ns c0 \<in> set (map (collection_relationships ns) cs')"
    using c0 by simp
  have hyphen_free: "CHR ''-'' \<notin> set (rfrom x) \<and> CHR ''-'' \<notin> set (rto x)"
    if "c \<in> set cs" "x \<in> set (collection_relationships ns c)" for c x
  proof -
    from collection_relationships_from_to [OF that(2)]
    have "rfrom x = cname c" "rto x \<in> cname ` set cs" using ns by simp_all
    with hy that(1) show ?thesis by auto
  qed
  show "\<forall>b \<in> set (map (collection_relationships ns) cs').
          b \<noteq> collection_relationships ns c0 \<longrightarrow>
          (\<forall>x \<in> set b. \<not> relationship_key x = relationship_key r)"
  proof (intro ballI impI notI)
    fix b x
    assume b: "b \<in> set (map (collection_relationships ns) cs')"
      and ne: "b \<noteq> collection_relationships ns c0"
      and x: "x \<in> set b" and k: "relationship_key x = relationship_key r"
    from b obtain c where c: "c \<in> set cs'" and bc: "b = collection_relationships ns c" by auto
    from c sub have c': "c \<in> set cs" by blast
    from c0 sub have c0': "c0 \<in> set cs" by blast
    from x bc have xc: "x \<in> set (collection_relationships ns c)" by simp
    from hyphen_free [OF c' xc] hyphen_free [OF c0' r] k
    have "rfrom x = rfrom r" using relationship_key_inj [of x r] by simp
    moreover from collection_relationships_from_to [OF xc] have "rfrom x = cname c" by simp
    moreover from collection_relationships_from_to [OF r] have "rfrom r = cname c0" by simp
    ultimately have "cname c = cname c0" by simp
    with inj c' c0' have "c = c0" by (simp add: inj_on_def)
    with bc ne show False by simp
  qed
qed

lemma detectRelationships_same_set:
  assumes eq: "set cs' = set cs" and d: "distinct (map cname cs)"
    and hy: "\<forall>c \<in> set cs. CHR ''-'' \<notin> set (cname c)"
  shows "set (detectRelationships cs') = set (detectRelationships cs)"
proof -
  let ?ns = "map cname cs"
  let ?raw = "\<lambda>l. concat (map (collection_relationships ?ns) l)"
  from d have inj: "inj_on cname (set cs)" by (simp add: distinct_map)
  have ns: "set ?ns = cname ` set cs" by simp
  have "set (map cname cs') = set ?ns" using eq by simp
  then have "collection_relationships (map cname cs') = collection_relationships ?ns"
    by (intro ext collection_relationships_cong)
  then have det': "detectRelationships cs' = dedup_from [] (?raw cs')"
    by (simp add: detectRelationships_def deduplicateRelationships_def)
  have det: "detectRelationships cs = dedup_from [] (?raw cs)"
    by (simp add: detectRelationships_def deduplicateRelationships_def)
  have raw_set: "set (?raw cs') = set (?raw cs)" using eq by simp
  have same_find: "find (\<lambda>x. relationship_key x = relationship_key r) (?raw cs')
      = find (\<lambda>x. relationship_key x = relationship_key r) (?raw cs)"
    if "r \<in> set (?raw cs)" for r
  proof -
    from that obtain c0 where c0: "c0 \<in> set cs" and r: "r \<in> set (collection_relationships ?ns c0)"
      by auto
    have "find (\<lambda>x. relationship_key x = relationship_key r) (?raw cs')
        = find (\<lambda>x. relationship_key x = relationship_key r) (collection_relationships ?ns c0)"
      by (rule find_in_own_block [OF inj hy ns _ _ r]) (use eq c0 in simp_all)
    moreover have "find (\<lambda>x. relationship_key x = relationship_key r) (?raw cs)
        = find (\<lambda>x. relationship_key x = relationship_key r) (collection_relationships ?ns c0)"
      by (rule find_in_own_block [OF inj hy ns _ _ r]) (use c0 in simp_all)
    ultimately show ?thesis by simp
  qed
  have "r \<in> set (dedup_from [] (?raw cs')) \<longleftrightarrow> r \<in> set (dedup_from [] (?raw cs))" for r
  proof (cases "r \<in> set (?raw cs)")
    case True
    from same_find [OF True] True raw_set show ?thesis
      unfolding dedup_from_set by simp
  next
    case False
    with raw_set show ?thesis unfolding dedup_from_set by simp
  qed
  then show ?thesis unfolding det det' by blast
qed

lemma distinct_map_comp: "distinct (map (g \<circ> f) xs) \<Longrightarrow> distinct (map f xs)"
  by (auto simp: distinct_map inj_on_def)

lemma detectRelationships_distinct_triples:
  "distinct (map (\<lambda>r. (rfrom r, rto r, rfield r)) (detectRelationships cs))"
proof -
  let ?g = "\<lambda>t. fst t @ ''-'' @ fst (snd t) @ ''-'' @ snd (snd t)"
  let ?f = "\<lambda>r. (rfrom r, rto r, rfield r)"
  have k: "map relationship_key rs = map (?g \<circ> ?f) rs" for rs
    by (simp add: relationship_key_def)
  have "distinct (map relationship_key (detectRelationships cs))"
    using dedup_from_keys [of "[]"]
    by (simp add: detectRelationships_def deduplicateRelationships_def)
  then have "distinct (map (?g \<circ> ?f) (detectRelationships cs))"
    by (simp only: k)
  then show ?thesis by (rule distinct_map_comp)
qed

section \<open>Compiling an intent whose collection is missing\<close>

lemma find_collection_None:
  "find_collection cs n = None \<longleftrightarrow> n \<notin> cname ` set cs"
  by (auto simp: find_collection_def find_None_iff)

text \<open>
  Claim C8. When the intent names no collection (it is absent or the empty string), or names
  one that the snapshot does not contain, \<open>generateQuery\<close> returns an invalid result with a
  non-empty list of validation errors, the empty query object and no pipeline.
\<close>

theorem generateQuery_missing_collection:
  assumes "collection intent = None \<or> collection intent = Some []
           \<or> (\<exists>c. collection intent = Some c \<and> c \<notin> cname ` set (cache_collections sc))"
  shows "\<not> isValid (generateQuery intent sc)
         \<and> validationErrors (generateQuery intent sc) \<noteq> []
         \<and> query (generateQuery intent sc) = Some (JObj [])
         \<and> pipeline (generateQuery intent sc) = None"
proof (cases "collection intent")
  case None
  then show ?thesis by (simp add: generateQuery_def invalid_query_def)
next
  case (Some n)
  show ?thesis
  proof (cases n)
    case Nil
    with Some show ?thesis by (simp add: generateQuery_def invalid_query_def)
  next
    case (Cons c cs)
    with Some assms have "find_collection (cache_collections sc) (c # cs) = None"
      by (simp add: find_collection_None)
    with Some Cons show ?thesis by (simp add: generateQuery_def invalid_query_def)
  qed
qed

theorem generateQuery_missing_collection_witness:
  "\<not> isValid (generateQuery
       \<lparr> itype = Find, collection = Some ''orders'', filters = None, ifields = None,
         aggregationStage = None, limit = None \<rparr>
       (Some \<lparr> collections = Some [\<lparr> cname = ''users'', cfields = [] \<rparr>] \<rparr>))
   \<and> validationErrors (generateQuery
       \<lparr> itype = Find, collection = Some ''orders'', filters = None, ifields = None,
         aggregationStage = None, limit = None \<rparr>
       (Some \<lparr> collections = Some [\<lparr> cname = ''users'', cfields = [] \<rparr>] \<rparr>))
     = [''Collection '' @ [CHR 0x27] @ ''orders'' @ [CHR 0x27] @ '' not found in schema'']"
proof -
  have h: "collection \<lparr> itype = Find, collection = Some ''orders'', filters = None,
             ifields = None, aggregationStage = None, limit = None \<rparr> = None
        \<or> collection \<lparr> itype = Find, collection = Some ''orders'', filters = None,
             ifields = None, aggregationStage = None, limit = None \<rparr> = Some []
        \<or> (\<exists>c. collection \<lparr> itype = Find, collection = Some ''orders'', filters = None,
             ifields = None, aggregationStage = None, limit = None \<rparr> = Some c
             \<and> c \<notin> cname ` set (cache_collections
                   (Some \<lparr> collections = Some [\<lparr> cname = ''users'', cfields = [] \<rparr>] \<rparr>)))"
    by (simp add: cache_collections_def)
  have e: "validationErrors (generateQuery
       \<lparr> itype = Find, collection = Some ''orders'', filters = None, ifields = None,
         aggregationStage = None, limit = None \<rparr>
       (Some \<lparr> collections = Some [\<lparr> cname = ''users'', cfields = [] \<rparr>] \<rparr>))
     = [''Collection '' @ [CHR 0x27] @ ''orders'' @ [CHR 0x27] @ '' not found in schema'']"
    by (simp add: generateQuery_def invalid_query_def cache_collections_def find_collection_def)
  from generateQuery_missing_collection [OF h] e show ?thesis by simp
qed

section \<open>The validation gate\<close>

text \<open>
  Claim C1, as the code has it. \<open>validateQuery\<close> accepts a query exactly when its type is
  one of count, find and aggregate, its query object (when present and truthy) serialises to
  a text containing none of \<open>$set\<close>, \<open>$unset\<close>, \<open>$push\<close>, \<open>$pull\<close>, \<open>$inc\<close>,
  \<open>$rename\<close>, and its pipeline (when present) serialises to a text containing none of
  \<open>$out\<close>, \<open>$merge\<close>, \<open>$set\<close>, \<open>$unset\<close>. The pipeline is not searched for
  \<open>$push\<close>, \<open>$pull\<close>, \<open>$inc\<close> or \<open>$rename\<close>. For an intent whose collection is
  resolved, \<open>generateQuery\<close> stores the verdict and the messages of \<open>validateQuery\<close> on
  the query it generated.
\<close>

theorem validation_gate:
  "(fst (validateQuery q coll') \<longleftrightarrow>
      qtype q \<in> {''count'', ''find'', ''aggregate''}
      \<and> (\<forall>qq. query q = Some qq \<and> truthy qq \<longrightarrow>
            (\<forall>t \<in> {''$set'', ''$unset'', ''$push'', ''$pull'', ''$inc'', ''$rename''}.
               \<not> str_includes (stringify qq) t))
      \<and> (\<forall>p. pipeline q = Some p \<longrightarrow>
            (\<forall>t \<in> {''$out'', ''$merge'', ''$set'', ''$unset''}.
               \<not> str_includes (stringify (JArr p)) t)))
   \<and> (collection intent = Some c \<and> c \<noteq> []
        \<and> find_collection (cache_collections sc) c = Some coll \<longrightarrow>
        isValid (generateQuery intent sc)
          = fst (validateQuery (generate_by_type intent coll) coll)
        \<and> validationErrors (generateQuery intent sc)
          = snd (validateQuery (generate_by_type intent coll) coll)
        \<and> qtype (generateQuery intent sc) = qtype (generate_by_type intent coll)
        \<and> query (generateQuery intent sc) = query (generate_by_type intent coll)
        \<and> pipeline (generateQuery intent sc) = pipeline (generate_by_type intent coll))"
proof (intro conjI impI)
  show "fst (validateQuery q coll') \<longleftrightarrow>
      qtype q \<in> {''count'', ''find'', ''aggregate''}
      \<and> (\<forall>qq. query q = Some qq \<and> truthy qq \<longrightarrow>
            (\<forall>t \<in> {''$set'', ''$unset'', ''$push'', ''$pull'', ''$inc'', ''$rename''}.
               \<not> str_includes (stringify qq) t))
      \<and> (\<forall>p. pipeline q = Some p \<longrightarrow>
            (\<forall>t \<in> {''$out'', ''$merge'', ''$set'', ''$unset''}.
               \<not> str_includes (stringify (JArr p)) t))"
    unfolding validateQuery_fst includes_any_iff
    by (simp add: query_tokens_def pipeline_tokens_def)
next
  assume a: "collection intent = Some c \<and> c \<noteq> []
        \<and> find_collection (cache_collections sc) c = Some coll"
  let ?g = "generate_by_type intent coll"
  have g: "generateQuery intent sc =
      ?g \<lparr> isValid := fst (validateQuery ?g coll),
           validationErrors := snd (validateQuery ?g coll) \<rparr>"
  proof (rule generateQuery_resolved)
    from a show "collection intent = Some c" by (rule conjunct1)
    from a show "c \<noteq> []" by (rule conjunct2 [THEN conjunct1])
    from a show "find_collection (cache_collections sc) c = Some coll"
      by (rule conjunct2 [THEN conjunct2])
  qed
  show "isValid (generateQuery intent sc) = fst (validateQuery ?g coll)"
    by (subst g) simp
  show "validationErrors (generateQuery intent sc) = snd (validateQuery ?g coll)"
    by (subst g) simp
  show "qtype (generateQuery intent sc) = qtype ?g"
    by (subst g) simp
  show "query (generateQuery intent sc) = query ?g"
    by (subst g) simp
  show "pipeline (generateQuery intent sc) = pipeline ?g"
    by (subst g) simp
qed

theorem validation_gate_witness:
  "find_collection (cache_collections (Some \<lparr> collections = Some [\<lparr> cname = ''users'', cfields = [] \<rparr>] \<rparr>)) ''users''
     = Some \<lparr> cname = ''users'', cfields = [] \<rparr>
   \<and> isValid (generateQuery \<lparr> itype = Count, collection = Some ''users'',
          filters = Some [(''status'', JStr ''active'')], ifields = None,
          aggregationStage = None, limit = None \<rparr> (Some \<lparr> collections = Some [\<lparr> cname = ''users'', cfields = [] \<rparr>] \<rparr>))
     = fst (validateQuery (generate_by_type \<lparr> itype = Count, collection = Some ''users'',
          filters = Some [(''status'', JStr ''active'')], ifields = None,
          aggregationStage = None, limit = None \<rparr> \<lparr> cname = ''users'', cfields = [] \<rparr>)
              \<lparr> cname = ''users'', cfields = [] \<rparr>)"
proof -
  have h3: "find_collection (cache_collections (Some \<lparr> collections = Some [\<lparr> cname = ''users'', cfields = [] \<rparr>] \<rparr>)) ''users''
       = Some \<lparr> cname = ''users'', cfields = [] \<rparr>"
    by (simp add: cache_collections_def find_collection_def)
  then have h: "collection \<lparr> itype = Count, collection = Some ''users'',
          filters = Some [(''status'', JStr ''active'')], ifields = None,
          aggregationStage = None, limit = None \<rparr> = Some ''users'' \<and> ''users'' \<noteq> []
      \<and> find_collection (cache_collections (Some \<lparr> collections = Some [\<lparr> cname = ''users'', cfields = [] \<rparr>] \<rparr>)) ''users''
          = Some \<lparr> cname = ''users'', cfields = [] \<rparr>"
    by simp
  have "collection \<lparr> itype = Count, collection = Some ''users'',
          filters = Some [(''status'', JStr ''active'')], ifields = None,
          aggregationStage = None, limit = None \<rparr> = Some ''users'' \<and> ''users'' \<noteq> []
      \<and> find_collection (cache_collections (Some \<lparr> collections = Some [\<lparr> cname = ''users'', cfields = [] \<rparr>] \<rparr>)) ''users''
          = Some \<lparr> cname = ''users'', cfields = [] \<rparr> \<longrightarrow>
      isValid (generateQuery \<lparr> itype = Count, collection = Some ''users'',
          filters = Some [(''status'', JStr ''active'')], ifields = None,
          aggregationStage = None, limit = None \<rparr> (Some \<lparr> collections = Some [\<lparr> cname = ''users'', cfields = [] \<rparr>] \<rparr>))
        = fst (validateQuery (generate_by_type \<lparr> itype = Count, collection = Some ''users'',
          filters = Some [(''status'', JStr ''active'')], ifields = None,
          aggregationStage = None, limit = None \<rparr> \<lparr> cname = ''users'', cfields = [] \<rparr>)
              \<lparr> cname = ''users'', cfields = [] \<rparr>)
      \<and> validationErrors (generateQuery \<lparr> itype = Count, collection = Some ''users'',
          filters = Some [(''status'', JStr ''active'')], ifields = None,
          aggregationStage = None, limit = None \<rparr> (Some \<lparr> collections = Some [\<lparr> cname = ''users'', cfields = [] \<rparr>] \<rparr>))
        = snd (validateQuery (generate_by_type \<lparr> itype = Count, collection = Some ''users'',
          filters = Some [(''status'', JStr ''active'')], ifields = None,
          aggregationStage = None, limit = None \<rparr> \<lparr> cname = ''users'', cfields = [] \<rparr>)
              \<lparr> cname = ''users'', cfields = [] \<rparr>)
      \<and> qtype (generateQuery \<lparr> itype = Count, collection = Some ''users'',
          filters = Some [(''status'', JStr ''active'')], ifields = None,
          aggregationStage = None, limit = None \<rparr> (Some \<lparr> collections = Some [\<lparr> cname = ''users'', cfields = [] \<rparr>] \<rparr>))
        = qtype (generate_by_type \<lparr> itype = Count, collection = Some ''users'',
          filters = Some [(''status'', JStr ''active'')], ifields = None,
          aggregationStage = None, limit = None \<rparr> \<lparr> cname = ''users'', cfields = [] \<rparr>)
      \<and> query (generateQuery \<lparr> itype = Count, collection = Some ''users'',
          filters = Some [(''status'', JStr ''active'')], ifields = None,
          aggregationStage = None, limit = None \<rparr> (Some \<lparr> collections = Some [\<lparr> cname = ''users'', cfields = [] \<rparr>] \<rparr>))
        = query (generate_by_type \<lparr> itype = Count, collection = Some ''users'',
          filters = Some [(''status'', JStr ''active'')], ifields = None,
          aggregationStage = None, limit = None \<rparr> \<lparr> cname = ''users'', cfields = [] \<rparr>)
      \<and> pipeline (generateQuery \<lparr> itype = Count, collection = Some ''users'',
          filters = Some [(''status'', JStr ''active'')], ifields = None,
          aggregationStage = None, limit = None \<rparr> (Some \<lparr> collections = Some [\<lparr> cname = ''users'', cfields = [] \<rparr>] \<rparr>))
        = pipeline (generate_by_type \<lparr> itype = Count, collection = Some ''users'',
          filters = Some [(''status'', JStr ''active'')], ifields = None,
          aggregationStage = None, limit = None \<rparr> \<lparr> cname = ''users'', cfields = [] \<rparr>)"
    by (rule validation_gate [THEN conjunct2])
  from this h have "isValid (generateQuery \<lparr> itype = Count, collection = Some ''users'',
          filters = Some [(''status'', JStr ''active'')], ifields = None,
          aggregationStage = None, limit = None \<rparr> (Some \<lparr> collections = Some [\<lparr> cname = ''users'', cfields = [] \<rparr>] \<rparr>))
        = fst (validateQuery (generate_by_type \<lparr> itype = Count, collection = Some ''users'',
          filters = Some [(''status'', JStr ''active'')], ifields = None,
          aggregationStage = None, limit = None \<rparr> \<lparr> cname = ''users'', cfields = [] \<rparr>)
              \<lparr> cname = ''users'', cfields = [] \<rparr>)"
    by (rule mp [THEN conjunct1])
  with h3 show ?thesis by (rule conjI)
qed

text \<open>
  The claim as stated fails: an aggregate intent whose filter uses \<open>$inc\<close> as an operator key
  compiles to a pipeline whose text contains \<open>$inc\<close>, and the gate accepts it.
\<close>

theorem aggregate_pipeline_inc_accepted:
  "pipeline (generateQuery \<lparr> itype = Aggregate, collection = Some ''users'',
          filters = Some [(''$inc'', JObj [(''visits'', JNum 1)])], ifields = None,
          aggregationStage = None, limit = None \<rparr> (Some \<lparr> collections = Some [\<lparr> cname = ''users'', cfields = [] \<rparr>] \<rparr>))
     = Some [JObj [(''$match'', JObj [(''$inc'', JObj [(''visits'', JNum 1)])])],
             JObj [(''$limit'', JNum 100)]]
   \<and> str_includes
        (stringify (JArr [JObj [(''$match'', JObj [(''$inc'', JObj [(''visits'', JNum 1)])])],
                          JObj [(''$limit'', JNum 100)]])) ''$inc''
   \<and> isValid (generateQuery \<lparr> itype = Aggregate, collection = Some ''users'',
          filters = Some [(''$inc'', JObj [(''visits'', JNum 1)])], ifields = None,
          aggregationStage = None, limit = None \<rparr> (Some \<lparr> collections = Some [\<lparr> cname = ''users'', cfields = [] \<rparr>] \<rparr>))"
  by code_simp

section \<open>Tokens in filter keys and filter values\<close>

text \<open>
  Claim C2, as the code has it. The gate searches the serialised text, so a token inside a
  string value counts like a token used as a key. For an intent with a resolved collection
  and filters: when it is compiled as a count or a find (every type but aggregate), the result
  is valid exactly when none of \<open>$set\<close>, \<open>$unset\<close>, \<open>$push\<close>, \<open>$pull\<close>, \<open>$inc\<close>,
  \<open>$rename\<close> occurs in a property name or in a string value of the filters, at any depth;
  \<open>$out\<close> and \<open>$merge\<close> are not looked for there. When it is compiled as an aggregate,
  the result is invalid whenever \<open>$out\<close>, \<open>$merge\<close>, \<open>$set\<close> or \<open>$unset\<close> occurs in
  a property name or in a string value of the filters.
\<close>

theorem filter_tokens_rejected:
  assumes "collection intent = Some c" "c \<noteq> []"
    "find_collection (cache_collections sc) c = Some coll"
    "filters intent = Some kvs"
  shows "(itype intent \<noteq> Aggregate \<longrightarrow>
            (isValid (generateQuery intent sc) \<longleftrightarrow>
               \<not> (\<exists>t \<in> {''$set'', ''$unset'', ''$push'', ''$pull'', ''$inc'', ''$rename''}.
                     mentioned t (json_keys (JObj kvs)) \<or> mentioned t (json_strings (JObj kvs)))))
       \<and> (itype intent = Aggregate \<longrightarrow>
            (\<exists>t \<in> {''$out'', ''$merge'', ''$set'', ''$unset''}.
                     mentioned t (json_keys (JObj kvs)) \<or> mentioned t (json_strings (JObj kvs)))
            \<longrightarrow> \<not> isValid (generateQuery intent sc))"
proof (intro conjI impI)
  assume na: "itype intent \<noteq> Aggregate"
  have f: "filters_or_empty intent = kvs" using assms(4) by (simp add: filters_or_empty_def)
  have "isValid (generateQuery intent sc) \<longleftrightarrow>
      \<not> includes_any (stringify (JObj kvs)) query_tokens"
    unfolding isValid_resolved [OF assms(1-3)] validateQuery_fst
    using generate_by_type_not_aggregate [OF na, of coll] f by simp
  also have "\<dots> \<longleftrightarrow> \<not> (\<exists>t \<in> set query_tokens.
      mentioned t (json_keys (JObj kvs)) \<or> mentioned t (json_strings (JObj kvs)))"
    unfolding includes_any_iff using stringify_includes_token operator_tokens(1) by blast
  finally show "isValid (generateQuery intent sc) \<longleftrightarrow>
      \<not> (\<exists>t \<in> {''$set'', ''$unset'', ''$push'', ''$pull'', ''$inc'', ''$rename''}.
            mentioned t (json_keys (JObj kvs)) \<or> mentioned t (json_strings (JObj kvs)))"
    by (simp add: query_tokens_def)
next
  assume a: "itype intent = Aggregate"
    and m: "\<exists>t \<in> {''$out'', ''$merge'', ''$set'', ''$unset''}.
       mentioned t (json_keys (JObj kvs)) \<or> mentioned t (json_strings (JObj kvs))"
  then obtain t where t: "t \<in> set pipeline_tokens"
    and mt: "mentioned t (json_keys (JObj kvs)) \<or> mentioned t (json_strings (JObj kvs))"
    by (auto simp: pipeline_tokens_def)
  let ?p = "match_stage intent @ group_stage intent @ [JObj [(''$limit'', JNum (limit_or intent 100))]]"
  from mt have "kvs \<noteq> []" by auto
  then have ms: "match_stage intent = [JObj [(''$match'', JObj kvs)]]"
    using assms(4) by (cases kvs) (simp_all add: match_stage_def)
  from mt have "mentioned t (json_keys (JArr ?p)) \<or> mentioned t (json_strings (JArr ?p))"
    by (auto simp: ms)
  then have "str_includes (stringify (JArr ?p)) t"
    using stringify_includes_token [OF operator_tokens(2) [OF t]] by blast
  with t have "includes_any (stringify (JArr ?p)) pipeline_tokens"
    unfolding includes_any_iff by blast
  then show "\<not> isValid (generateQuery intent sc)"
    unfolding isValid_resolved [OF assms(1-3)] validateQuery_fst
    using generate_by_type_aggregate [OF a, of coll] by simp
qed

theorem filter_tokens_rejected_witness:
  "itype \<lparr> itype = Count, collection = Some ''users'',
       filters = Some [(''$inc'', JObj [(''visits'', JNum 1)])], ifields = None,
       aggregationStage = None, limit = None \<rparr> \<noteq> Aggregate
   \<and> find_collection (cache_collections (Some \<lparr> collections = Some [\<lparr> cname = ''users'', cfields = [] \<rparr>] \<rparr>)) ''users''
       = Some \<lparr> cname = ''users'', cfields = [] \<rparr>
   \<and> mentioned ''$inc'' (json_keys (JObj [(''$inc'', JObj [(''visits'', JNum 1)])]))
   \<and> \<not> isValid (generateQuery
         \<lparr> itype = Count, collection = Some ''users'',
           filters = Some [(''$inc'', JObj [(''visits'', JNum 1)])], ifields = None,
           aggregationStage = None, limit = None \<rparr> (Some \<lparr> collections = Some [\<lparr> cname = ''users'', cfields = [] \<rparr>] \<rparr>))"
proof -
  let ?i = "\<lparr> itype = Count, collection = Some ''users'',
       filters = Some [(''$inc'', JObj [(''visits'', JNum 1)])], ifields = None,
       aggregationStage = None, limit = None \<rparr>"
  have h1: "collection ?i = Some ''users''" by simp
  have h2: "''users'' \<noteq> []" by simp
  have h3: "find_collection (cache_collections (Some \<lparr> collections = Some [\<lparr> cname = ''users'', cfields = [] \<rparr>] \<rparr>)) ''users''
       = Some \<lparr> cname = ''users'', cfields = [] \<rparr>"
    by (simp add: cache_collections_def find_collection_def)
  have h4: "filters ?i = Some [(''$inc'', JObj [(''visits'', JNum 1)])]" by simp
  have n: "itype ?i \<noteq> Aggregate" by simp
  have m: "mentioned ''$inc'' (json_keys (JObj [(''$inc'', JObj [(''visits'', JNum 1)])]))"
    by simp
  have ex: "\<exists>t \<in> {''$set'', ''$unset'', ''$push'', ''$pull'', ''$inc'', ''$rename''}.
      mentioned t (json_keys (JObj [(''$inc'', JObj [(''visits'', JNum 1)])]))
      \<or> mentioned t (json_strings (JObj [(''$inc'', JObj [(''visits'', JNum 1)])]))"
    by (intro bexI [of _ "''$inc''"] disjI1 m) simp
  from filter_tokens_rejected [OF h1 h2 h3 h4]
  have "itype ?i \<noteq> Aggregate \<longrightarrow>
      (isValid (generateQuery ?i (Some \<lparr> collections = Some [\<lparr> cname = ''users'', cfields = [] \<rparr>] \<rparr>)) \<longleftrightarrow>
         \<not> (\<exists>t \<in> {''$set'', ''$unset'', ''$push'', ''$pull'', ''$inc'', ''$rename''}.
           mentioned t (json_keys (JObj [(''$inc'', JObj [(''visits'', JNum 1)])]))
           \<or> mentioned t (json_strings (JObj [(''$inc'', JObj [(''visits'', JNum 1)])]))))"
    by (rule conjunct1)
  from this n have iff: "isValid (generateQuery ?i (Some \<lparr> collections = Some [\<lparr> cname = ''users'', cfields = [] \<rparr>] \<rparr>)) \<longleftrightarrow>
         \<not> (\<exists>t \<in> {''$set'', ''$unset'', ''$push'', ''$pull'', ''$inc'', ''$rename''}.
           mentioned t (json_keys (JObj [(''$inc'', JObj [(''visits'', JNum 1)])]))
           \<or> mentioned t (json_strings (JObj [(''$inc'', JObj [(''visits'', JNum 1)])])))"
    by (rule mp)
  have r: "\<not> isValid (generateQuery ?i (Some \<lparr> collections = Some [\<lparr> cname = ''users'', cfields = [] \<rparr>] \<rparr>))"
  proof
    assume "isValid (generateQuery ?i (Some \<lparr> collections = Some [\<lparr> cname = ''users'', cfields = [] \<rparr>] \<rparr>))"
    from iff [THEN iffD1, OF this] ex show False by (rule notE)
  qed
  show ?thesis by (intro conjI n h3 m r)
qed

text \<open>
  The claim as stated fails: a find intent whose only filter is the field \<open>status\<close> with the
  string value \<open>$set\<close> has the token in a value and in no key, and is rejected.
\<close>

theorem filter_value_token_rejected:
  "json_keys (JObj [(''status'', JStr ''$set'')]) = [''status'']
   \<and> json_strings (JObj [(''status'', JStr ''$set'')]) = [''$set'']
   \<and> \<not> isValid (generateQuery
         \<lparr> itype = Find, collection = Some ''users'',
           filters = Some [(''status'', JStr ''$set'')], ifields = None,
           aggregationStage = None, limit = None \<rparr> (Some \<lparr> collections = Some [\<lparr> cname = ''users'', cfields = [] \<rparr>] \<rparr>))"
  by code_simp

text \<open>A find whose filter uses \<open>$out\<close> as a key is accepted: the query object is not
  searched for \<open>$out\<close> or \<open>$merge\<close>.\<close>

lemma find_filter_out_key_accepted:
  "isValid (generateQuery
      \<lparr> itype = Find, collection = Some ''users'',
        filters = Some [(''$out'', JStr ''copy'')], ifields = None,
        aggregationStage = None, limit = None \<rparr> (Some \<lparr> collections = Some [\<lparr> cname = ''users'', cfields = [] \<rparr>] \<rparr>))"
  by code_simp


section \<open>Requiredness of a field that some documents lack\<close>

text \<open>
  Claim C3 says that a field present in one sampled document and absent from another ends
  up not required. \<open>extractFieldsFromDocument\<close> visits only the keys a document has, so a
  document that lacks a field never lowers its \<open>required\<close> flag: for the sample below, in
  which the second document has no \<open>email\<close>, the field \<open>email\<close> is required.
\<close>

theorem analyzeFields_absent_field_required:
  "analyzeFields
     [[(''name'', DStr ''Ann''), (''email'', DStr ''ann@example.org'')],
      [(''name'', DStr ''Bob'')]]
   = [\<lparr> name = ''name'', type = ''string'', required = True, isArray = False,
         isNested = False \<rparr>,
      \<lparr> name = ''email'', type = ''string'', required = True, isArray = False,
         isNested = False \<rparr>]"
  by code_simp

section \<open>The second pass and falsy values\<close>

text \<open>
  Claim C4 says that the generic pass never overwrites a field set by the first pass, also
  when the first pass assigned \<open>false\<close> or \<open>0\<close>. The guard of the second pass is
  \<open>!filters[fieldName]\<close>, which also holds for a field whose value is \<open>false\<close> or \<open>0\<close>:
  in the first message the first pass sets \<open>active\<close> to \<open>false\<close> and the second pass
  replaces it by \<open>true\<close>; in the second message \<open>count\<close> is set to \<open>0\<close> and replaced
  by \<open>5\<close>.
\<close>

theorem extractFilters_overwrites_falsy:
  "where_pass Number ''where active is false active:true'' [] = [(''active'', FBool False)]
   \<and> extractFilters Number ''where active is false active:true'' = [(''active'', FBool True)]
   \<and> where_pass (\<lambda>s. if s = ''0'' then Some (Num 0) else if s = ''5'' then Some (Num 5) else None)
         ''where count = 0 and count: 5'' [] = [(''count'', FNum (Num 0))]
   \<and> extractFilters (\<lambda>s. if s = ''0'' then Some (Num 0) else if s = ''5'' then Some (Num 5) else None)
         ''where count = 0 and count: 5'' = [(''count'', FNum (Num 5))]"
  by code_simp

text \<open>
  A field name that \<open>Object.prototype\<close> has is never assigned by the second pass, as the
  value read under it is a function or an object; the first pass assigns it. Neither pass
  creates a property named \<open>__proto__\<close>.
\<close>

lemma extractFilters_inherited_names:
  "extractFilters Number ''constructor: true status: true'' = [(''status'', FBool True)]
   \<and> extractFilters Number ''where constructor is true'' = [(''constructor'', FBool True)]
   \<and> extractFilters Number ''where __proto__ is true'' = []"
  by code_simp

section \<open>The default projection and the limit of a find\<close>

text \<open>
  Claim C5, as the code has it. For a find intent with no requested fields and a resolved
  collection, the options of the compiled query have no projection exactly when no field of
  the schema qualifies, a field qualifying when its name is not \<open>_id\<close> and its type is
  neither \<open>Buffer\<close> nor \<open>Binary\<close>. Otherwise the projection holds the value 1 under the
  name of each of the first eight qualifying fields, in schema order, except the name
  \<open>__proto__\<close>, for which the assignment creates no property; it holds nothing else, and
  at most eight properties. A field of type \<open>mixed\<close> is not excluded. The limit of the
  options is the limit of the intent when that is present and not zero, and 10 when the
  intent has no limit or the limit 0.
\<close>

theorem default_projection_and_limit:
  assumes "itype intent = Find"
    and "ifields intent = None \<or> ifields intent = Some []"
    and "collection intent = Some c" "c \<noteq> []"
    and "find_collection (cache_collections sc) c = Some coll"
  shows "\<exists>opts. options (generateQuery intent sc) = Some opts
      \<and> (case projection opts of
            None \<Rightarrow>
              filter (\<lambda>f. type f \<noteq> ''Buffer'' \<and> type f \<noteq> ''Binary'' \<and> name f \<noteq> ''_id'')
                (cfields coll) = []
          | Some p \<Rightarrow>
              filter (\<lambda>f. type f \<noteq> ''Buffer'' \<and> type f \<noteq> ''Binary'' \<and> name f \<noteq> ''_id'')
                (cfields coll) \<noteq> []
              \<and> set p = (\<lambda>n. (n, 1)) ` (name ` set (take 8
                  (filter (\<lambda>f. type f \<noteq> ''Buffer'' \<and> type f \<noteq> ''Binary'' \<and> name f \<noteq> ''_id'')
                     (cfields coll))) - {''__proto__''})
              \<and> distinct (map fst p) \<and> length p \<le> 8)
      \<and> olimit opts = (case limit intent of None \<Rightarrow> 10 | Some n \<Rightarrow> if n = 0 then 10 else n)"
proof -
  let ?d = "default_fields coll"
  have o: "options (generateQuery intent sc) =
      Some \<lparr> projection = find_projection intent coll, olimit = limit_or intent 10 \<rparr>"
    using assms(1) generateQuery_options [OF assms(3-5)]
    by (simp add: generate_by_type_def generateFindQuery_def)
  have p: "find_projection intent coll =
      (if ?d \<noteq> [] then Some (project_all (map name ?d)) else None)"
    using assms(2) by (auto simp: find_projection_def)
  have l: "limit_or intent 10 = (case limit intent of None \<Rightarrow> 10 | Some n \<Rightarrow> if n = 0 then 10 else n)"
    by (simp add: limit_or_def split: option.splits)
  have len: "length (project_all (map name ?d)) \<le> 8"
    using project_all_props(4) [of "map name ?d"] by (simp add: default_fields_def)
  have d: "?d = take 8
      (filter (\<lambda>f. type f \<noteq> ''Buffer'' \<and> type f \<noteq> ''Binary'' \<and> name f \<noteq> ''_id'') (cfields coll))"
    by (simp add: default_fields_def)
  show ?thesis
  proof (cases "?d = []")
    case True
    then have "projection \<lparr> projection = find_projection intent coll,
        olimit = limit_or intent 10 \<rparr> = None"
      by (simp add: p)
    moreover from True have "filter (\<lambda>f. type f \<noteq> ''Buffer'' \<and> type f \<noteq> ''Binary'' \<and> name f \<noteq> ''_id'') (cfields coll) = []"
      unfolding d by simp
    ultimately show ?thesis unfolding o using l by simp
  next
    case False
    then have "projection \<lparr> projection = find_projection intent coll,
        olimit = limit_or intent 10 \<rparr> = Some (project_all (map name ?d))"
      by (simp add: p)
    moreover have "set (project_all (map name ?d))
        = (\<lambda>n. (n, 1)) ` (name ` set ?d - {''__proto__''})"
      by (simp add: project_all_set)
    moreover from False have "filter (\<lambda>f. type f \<noteq> ''Buffer'' \<and> type f \<noteq> ''Binary'' \<and> name f \<noteq> ''_id'') (cfields coll) \<noteq> []"
      unfolding d by auto
    moreover note len project_all_props(3) [of "map name ?d"]
    ultimately show ?thesis unfolding o d using l by simp
  qed
qed

theorem default_projection_and_limit_witness:
  "map_option olimit (options (generateQuery
      \<lparr> itype = Find, collection = Some ''users'', filters = None, ifields = None,
        aggregationStage = None, limit = Some 25 \<rparr> (Some \<lparr> collections = Some [\<lparr> cname = ''users'', cfields =
           [\<lparr> name = ''_id'', type = ''objectId'', required = True, isArray = False,
              isNested = False \<rparr>,
            \<lparr> name = ''age'', type = ''mixed'', required = True, isArray = False,
              isNested = False \<rparr>] \<rparr>] \<rparr>))) = Some 25"
proof -
  let ?i = "\<lparr> itype = Find, collection = Some ''users'', filters = None, ifields = None,
        aggregationStage = None, limit = Some 25 \<rparr>"
  have h1: "itype ?i = Find" by simp
  have h2: "ifields ?i = None \<or> ifields ?i = Some []" by simp
  have h3: "collection ?i = Some ''users''" by simp
  have h4: "''users'' \<noteq> []" by simp
  have h5: "find_collection (cache_collections (Some \<lparr> collections = Some [\<lparr> cname = ''users'', cfields =
           [\<lparr> name = ''_id'', type = ''objectId'', required = True, isArray = False,
              isNested = False \<rparr>,
            \<lparr> name = ''age'', type = ''mixed'', required = True, isArray = False,
              isNested = False \<rparr>] \<rparr>] \<rparr>)) ''users''
      = Some \<lparr> cname = ''users'', cfields =
           [\<lparr> name = ''_id'', type = ''objectId'', required = True, isArray = False,
              isNested = False \<rparr>,
            \<lparr> name = ''age'', type = ''mixed'', required = True, isArray = False,
              isNested = False \<rparr>] \<rparr>"
    by (simp add: cache_collections_def find_collection_def)
  from default_projection_and_limit [OF h1 h2 h3 h4 h5]
  obtain opts where "options (generateQuery ?i (Some \<lparr> collections = Some [\<lparr> cname = ''users'', cfields =
           [\<lparr> name = ''_id'', type = ''objectId'', required = True, isArray = False,
              isNested = False \<rparr>,
            \<lparr> name = ''age'', type = ''mixed'', required = True, isArray = False,
              isNested = False \<rparr>] \<rparr>] \<rparr>)) = Some opts"
    and "olimit opts = (case limit ?i of None \<Rightarrow> 10 | Some n \<Rightarrow> if n = 0 then 10 else n)"
    by blast
  then show ?thesis by simp
qed

text \<open>
  The claim as stated fails on both counts: the field \<open>age\<close> of type \<open>mixed\<close> is in the
  default projection, and the limit 0 of the intent is present but the limit of the options
  is 10.
\<close>

theorem mixed_field_projected:
  "options (generateQuery
      \<lparr> itype = Find, collection = Some ''users'', filters = None, ifields = None,
        aggregationStage = None, limit = Some 0 \<rparr> (Some \<lparr> collections = Some [\<lparr> cname = ''users'', cfields =
           [\<lparr> name = ''_id'', type = ''objectId'', required = True, isArray = False,
              isNested = False \<rparr>,
            \<lparr> name = ''age'', type = ''mixed'', required = True, isArray = False,
              isNested = False \<rparr>] \<rparr>] \<rparr>))
     = Some \<lparr> projection = Some [(''age'', 1)], olimit = 10 \<rparr>"
  by code_simp

text \<open>A field named \<open>__proto__\<close> qualifies but gets no property, and array indices come
  first in the projection.\<close>

lemma project_all_example:
  "project_all [''b'', ''10'', ''__proto__'', ''a'', ''9'', ''b'', ''01'']
     = [(''9'', 1), (''10'', 1), (''b'', 1), (''a'', 1), (''01'', 1)]"
  by code_simp

section \<open>Order independence of relationship detection\<close>

text \<open>
  Claim C6, as the code has it. \<open>detectRelationships\<close> is a function of its argument. For
  every list of schemas its result contains no two relationships with the same triple of
  source, target and field. When the collection names of the list are pairwise distinct and
  none of them contains the character \<open>-\<close>, every permutation of the list gives the same
  set of tuples of source, target, field and type.
\<close>

theorem detectRelationships_order_independent:
  "distinct (map (\<lambda>r. (rfrom r, rto r, rfield r)) (detectRelationships cs))
   \<and> (mset cs' = mset cs \<and> distinct (map cname cs)
        \<and> (\<forall>c \<in> set cs. CHR ''-'' \<notin> set (cname c))
      \<longrightarrow> (\<lambda>r. (rfrom r, rto r, rfield r, rtype r)) ` set (detectRelationships cs')
           = (\<lambda>r. (rfrom r, rto r, rfield r, rtype r)) ` set (detectRelationships cs))"
proof (intro conjI impI)
  show "distinct (map (\<lambda>r. (rfrom r, rto r, rfield r)) (detectRelationships cs))"
    by (rule detectRelationships_distinct_triples)
next
  assume h: "mset cs' = mset cs \<and> distinct (map cname cs)
      \<and> (\<forall>c \<in> set cs. CHR ''-'' \<notin> set (cname c))"
  then have "set cs' = set cs" by (intro mset_eq_setD) simp
  moreover from h have "distinct (map cname cs)" by simp
  moreover from h have "\<forall>c \<in> set cs. CHR ''-'' \<notin> set (cname c)" by simp
  ultimately have "set (detectRelationships cs') = set (detectRelationships cs)"
    by (rule detectRelationships_same_set)
  then show "(\<lambda>r. (rfrom r, rto r, rfield r, rtype r)) ` set (detectRelationships cs')
      = (\<lambda>r. (rfrom r, rto r, rfield r, rtype r)) ` set (detectRelationships cs)"
    by simp
qed

theorem detectRelationships_order_independent_witness:
  "distinct (map (\<lambda>r. (rfrom r, rto r, rfield r)) (detectRelationships
       [\<lparr> cname = ''orders'', cfields = [\<lparr> name = ''userId'', type = ''objectId'', required = True, isArray = False, isNested = False \<rparr>] \<rparr>,
        \<lparr> cname = ''users'', cfields = [] \<rparr>]))
   \<and> (\<lambda>r. (rfrom r, rto r, rfield r, rtype r)) ` set (detectRelationships
       [\<lparr> cname = ''users'', cfields = [] \<rparr>,
        \<lparr> cname = ''orders'', cfields = [\<lparr> name = ''userId'', type = ''objectId'', required = True, isArray = False, isNested = False \<rparr>] \<rparr>])
     = (\<lambda>r. (rfrom r, rto r, rfield r, rtype r)) ` set (detectRelationships
       [\<lparr> cname = ''orders'', cfields = [\<lparr> name = ''userId'', type = ''objectId'', required = True, isArray = False, isNested = False \<rparr>] \<rparr>,
        \<lparr> cname = ''users'', cfields = [] \<rparr>])
   \<and> map (\<lambda>r. (rfrom r, rto r, rfield r, rtype r)) (detectRelationships
       [\<lparr> cname = ''orders'', cfields = [\<lparr> name = ''userId'', type = ''objectId'', required = True, isArray = False, isNested = False \<rparr>] \<rparr>,
        \<lparr> cname = ''users'', cfields = [] \<rparr>]) = [(''orders'', ''users'', ''userId'', ''one-to-one'')]"
proof -
  have h: "mset [\<lparr> cname = ''users'', cfields = [] \<rparr>,
        \<lparr> cname = ''orders'', cfields = [\<lparr> name = ''userId'', type = ''objectId'', required = True, isArray = False, isNested = False \<rparr>] \<rparr>]
      = mset [\<lparr> cname = ''orders'', cfields = [\<lparr> name = ''userId'', type = ''objectId'', required = True, isArray = False, isNested = False \<rparr>] \<rparr>,
        \<lparr> cname = ''users'', cfields = [] \<rparr>]
      \<and> distinct (map cname [\<lparr> cname = ''orders'', cfields = [\<lparr> name = ''userId'', type = ''objectId'', required = True, isArray = False, isNested = False \<rparr>] \<rparr>,
        \<lparr> cname = ''users'', cfields = [] \<rparr>])
      \<and> (\<forall>c \<in> set [\<lparr> cname = ''orders'', cfields = [\<lparr> name = ''userId'', type = ''objectId'', required = True, isArray = False, isNested = False \<rparr>] \<rparr>,
        \<lparr> cname = ''users'', cfields = [] \<rparr>]. CHR ''-'' \<notin> set (cname c))"
    by simp
  have v: "map (\<lambda>r. (rfrom r, rto r, rfield r, rtype r)) (detectRelationships
       [\<lparr> cname = ''orders'', cfields = [\<lparr> name = ''userId'', type = ''objectId'', required = True, isArray = False, isNested = False \<rparr>] \<rparr>,
        \<lparr> cname = ''users'', cfields = [] \<rparr>]) = [(''orders'', ''users'', ''userId'', ''one-to-one'')]"
    by code_simp
  from detectRelationships_order_independent [of "[\<lparr> cname = ''orders'', cfields = [\<lparr> name = ''userId'', type = ''objectId'', required = True, isArray = False, isNested = False \<rparr>] \<rparr>,
        \<lparr> cname = ''users'', cfields = [] \<rparr>]" "[\<lparr> cname = ''users'', cfields = [] \<rparr>,
        \<lparr> cname = ''orders'', cfields = [\<lparr> name = ''userId'', type = ''objectId'', required = True, isArray = False, isNested = False \<rparr>] \<rparr>]"] h v
  show ?thesis by blast
qed

text \<open>
  The claim as stated fails. Of the relationships with the same source, target and field the
  first one pushed is kept, whatever its type is: when two schemas in the list have the same
  collection name and their fields of the same name differ in \<open>isArray\<close>, the type in the
  result depends on which schema comes first.
\<close>

theorem detectRelationships_order_dependent:
  "map (\<lambda>r. (rfrom r, rto r, rfield r, rtype r)) (detectRelationships
       [\<lparr> cname = ''orders'', cfields = [\<lparr> name = ''user_id'', type = ''string'', required = True, isArray = False, isNested = False \<rparr>] \<rparr>,
        \<lparr> cname = ''orders'', cfields = [\<lparr> name = ''user_id'', type = ''array'', required = True, isArray = True, isNested = False \<rparr>] \<rparr>,
        \<lparr> cname = ''users'', cfields = [] \<rparr>])
     = [(''orders'', ''users'', ''user_id'', ''one-to-one'')]
   \<and> map (\<lambda>r. (rfrom r, rto r, rfield r, rtype r)) (detectRelationships
       [\<lparr> cname = ''orders'', cfields = [\<lparr> name = ''user_id'', type = ''array'', required = True, isArray = True, isNested = False \<rparr>] \<rparr>,
        \<lparr> cname = ''orders'', cfields = [\<lparr> name = ''user_id'', type = ''string'', required = True, isArray = False, isNested = False \<rparr>] \<rparr>,
        \<lparr> cname = ''users'', cfields = [] \<rparr>])
     = [(''orders'', ''users'', ''user_id'', ''one-to-many'')]"
  by code_simp

text \<open>
  Names without \<open>-\<close> are needed as well. The key under which relationships are
  deduplicated joins the three names with \<open>-\<close>, so the relationships
  \<open>(a, x-x, x-xId)\<close> and \<open>(a-x-x, x, xId)\<close> have the same key, and the one whose
  collection comes first is the one kept.
\<close>

lemma detectRelationships_key_collision:
  "map (\<lambda>r. (rfrom r, rto r, rfield r, rtype r)) (detectRelationships
       [\<lparr> cname = ''a'', cfields = [\<lparr> name = ''x-xId'', type = ''objectId'', required = True, isArray = False, isNested = False \<rparr>] \<rparr>,
        \<lparr> cname = ''a-x-x'', cfields = [\<lparr> name = ''xId'', type = ''objectId'', required = True, isArray = False, isNested = False \<rparr>] \<rparr>,
        \<lparr> cname = ''x'', cfields = [] \<rparr>, \<lparr> cname = ''x-x'', cfields = [] \<rparr>])
     = [(''a'', ''x-x'', ''x-xId'', ''one-to-one'')]
   \<and> map (\<lambda>r. (rfrom r, rto r, rfield r, rtype r)) (detectRelationships
       [\<lparr> cname = ''a-x-x'', cfields = [\<lparr> name = ''xId'', type = ''objectId'', required = True, isArray = False, isNested = False \<rparr>] \<rparr>,
        \<lparr> cname = ''a'', cfields = [\<lparr> name = ''x-xId'', type = ''objectId'', required = True, isArray = False, isNested = False \<rparr>] \<rparr>,
        \<lparr> cname = ''x'', cfields = [] \<rparr>, \<lparr> cname = ''x-x'', cfields = [] \<rparr>])
     = [(''a-x-x'', ''x'', ''xId'', ''one-to-one'')]"
  by code_simp

text \<open>A field that would refer to a collection whose name is the empty string gives no
  relationship, the empty name being falsy.\<close>

lemma detectRelationships_empty_name:
  "detectRelationships
     [\<lparr> cname = [], cfields = [] \<rparr>,
      \<lparr> cname = ''orders'', cfields = [\<lparr> name = ''s_id'', type = ''string'', required = True, isArray = False, isNested = False \<rparr>] \<rparr>]
   = []"
  by code_simp

section \<open>Range and monotonicity of the confidence score\<close>

text \<open>
  Claim C7. The confidence lies between 0 and 1. Its value is one of five doubles, given here
  by their 53-bit significands: 0.5 when no condition holds; 0.65 when only a filter was
  extracted or only the type is not general; 0.8 when only a collection was mentioned, or a
  filter was extracted and the type is not general; 0.9500000000000001 when a collection was
  mentioned and either a filter was extracted or the type is neither general nor find; and 1
  in the remaining cases. This value is within \<open>2\<^sup>-\<^sup>5\<^sup>3\<close> of the decimal sum 0.5, plus 0.3 if
  a collection was mentioned, plus 0.15 if a filter was extracted, plus 0.15 if the type is
  not general, plus 0.2 if the type is find and a collection was mentioned, clamped to 1; and
  it is that sum taken in this order in double arithmetic. The score is not a function of the
  number of satisfied conditions alone (the bonuses differ), and it never decreases when that
  number grows: an input that satisfies more conditions than another has a score at least as
  high, whether or not the further boost of a find is counted as a condition of its own, and
  an input that satisfies every condition another one satisfies has a score at least as high.
\<close>

theorem confidence_bounded_and_monotone:
  "0 \<le> double_value (calculateConfidence ty cs fs)
   \<and> double_value (calculateConfidence ty cs fs) \<le> 1
   \<and> double_value (calculateConfidence ty cs fs) =
       (if cs = []
        then (if fs = []
              then (if ty = General then 1 / 2 else 5854679515581645 / 2 ^ 53)
              else (if ty = General then 5854679515581645 / 2 ^ 53
                    else 7205759403792794 / 2 ^ 53))
        else (if fs = []
              then (if ty = General then 7205759403792794 / 2 ^ 53
                    else if ty = Find then 1 else 8556839292003943 / 2 ^ 53)
              else (if ty = General then 8556839292003943 / 2 ^ 53 else 1)))
   \<and> \<bar>double_value (calculateConfidence ty cs fs)
      - min 1 (1 / 2 + (if cs \<noteq> [] then 3 / 10 else 0) + (if fs \<noteq> [] then 15 / 100 else 0)
                 + (if ty \<noteq> General then 15 / 100 else 0)
                 + (if ty = Find \<and> cs \<noteq> [] then 2 / 10 else 0))\<bar> \<le> 1 / 2 ^ 53
   \<and> calculateConfidence ty cs fs =
       min D_1
         ((if ty = Find \<and> cs \<noteq> [] then (\<lambda>x. dadd x D_0_2) else id)
          ((if ty \<noteq> General then (\<lambda>x. dadd x D_0_15) else id)
           ((if fs \<noteq> [] then (\<lambda>x. dadd x D_0_15) else id)
            ((if cs \<noteq> [] then (\<lambda>x. dadd x D_0_3) else id) D_0_5))))
   \<and> (bonus_count ty cs fs < bonus_count ty' cs' fs' \<longrightarrow>
        double_value (calculateConfidence ty cs fs)
          \<le> double_value (calculateConfidence ty' cs' fs'))
   \<and> (basic_bonus_count ty cs fs < basic_bonus_count ty' cs' fs' \<longrightarrow>
        double_value (calculateConfidence ty cs fs)
          \<le> double_value (calculateConfidence ty' cs' fs'))
   \<and> ((cs \<noteq> [] \<longrightarrow> cs' \<noteq> []) \<and> (fs \<noteq> [] \<longrightarrow> fs' \<noteq> [])
        \<and> (ty \<noteq> General \<longrightarrow> ty' \<noteq> General) \<and> (ty = Find \<and> cs \<noteq> [] \<longrightarrow> ty' = Find) \<longrightarrow>
        double_value (calculateConfidence ty cs fs)
          \<le> double_value (calculateConfidence ty' cs' fs'))"
proof (intro conjI)
  have r: "0 \<le> calculateConfidence ty cs fs \<and> calculateConfidence ty cs fs \<le> 2 ^ 55"
    unfolding confidence_table by simp
  have m: "double_value a \<le> double_value b \<longleftrightarrow> a \<le> b" for a b
    by (simp add: double_value_def divide_le_cancel)
  show "0 \<le> double_value (calculateConfidence ty cs fs)"
    using r by (simp add: double_value_def)
  show "double_value (calculateConfidence ty cs fs) \<le> 1"
    using r by (simp add: double_value_def)
  show "double_value (calculateConfidence ty cs fs) =
       (if cs = []
        then (if fs = []
              then (if ty = General then 1 / 2 else 5854679515581645 / 2 ^ 53)
              else (if ty = General then 5854679515581645 / 2 ^ 53
                    else 7205759403792794 / 2 ^ 53))
        else (if fs = []
              then (if ty = General then 7205759403792794 / 2 ^ 53
                    else if ty = Find then 1 else 8556839292003943 / 2 ^ 53)
              else (if ty = General then 8556839292003943 / 2 ^ 53 else 1)))"
    by (rule confidence_value_table)
  show "\<bar>double_value (calculateConfidence ty cs fs)
      - min 1 (1 / 2 + (if cs \<noteq> [] then 3 / 10 else 0) + (if fs \<noteq> [] then 15 / 100 else 0)
                 + (if ty \<noteq> General then 15 / 100 else 0)
                 + (if ty = Find \<and> cs \<noteq> [] then 2 / 10 else 0))\<bar> \<le> 1 / 2 ^ 53"
    by (rule confidence_near_decimal_sum)
  show "calculateConfidence ty cs fs =
       min D_1
         ((if ty = Find \<and> cs \<noteq> [] then (\<lambda>x. dadd x D_0_2) else id)
          ((if ty \<noteq> General then (\<lambda>x. dadd x D_0_15) else id)
           ((if fs \<noteq> [] then (\<lambda>x. dadd x D_0_15) else id)
            ((if cs \<noteq> [] then (\<lambda>x. dadd x D_0_3) else id) D_0_5))))"
    by (simp add: calculateConfidence_def Let_def min.commute min.left_commute)
  show "bonus_count ty cs fs < bonus_count ty' cs' fs' \<longrightarrow>
        double_value (calculateConfidence ty cs fs)
          \<le> double_value (calculateConfidence ty' cs' fs')"
    unfolding m confidence_table bonus_count_def basic_bonus_count_def by simp
  show "basic_bonus_count ty cs fs < basic_bonus_count ty' cs' fs' \<longrightarrow>
        double_value (calculateConfidence ty cs fs)
          \<le> double_value (calculateConfidence ty' cs' fs')"
    unfolding m confidence_table basic_bonus_count_def by simp
  show "(cs \<noteq> [] \<longrightarrow> cs' \<noteq> []) \<and> (fs \<noteq> [] \<longrightarrow> fs' \<noteq> [])
        \<and> (ty \<noteq> General \<longrightarrow> ty' \<noteq> General) \<and> (ty = Find \<and> cs \<noteq> [] \<longrightarrow> ty' = Find) \<longrightarrow>
        double_value (calculateConfidence ty cs fs)
          \<le> double_value (calculateConfidence ty' cs' fs')"
    unfolding m confidence_table by simp
qed

theorem confidence_bounded_and_monotone_witness:
  "bonus_count General [''users''] ([] :: (string \<times> filter_value) list)
     < bonus_count Count [''users''] [(''status'', FStr ''active'')]
   \<and> basic_bonus_count General [''users''] ([] :: (string \<times> filter_value) list)
     < basic_bonus_count Count [''users''] [(''status'', FStr ''active'')]
   \<and> double_value (calculateConfidence General [''users''] ([] :: (string \<times> filter_value) list))
       = 7205759403792794 / 2 ^ 53
   \<and> double_value (calculateConfidence Count [''users''] [(''status'', FStr ''active'')]) = 1
   \<and> double_value (calculateConfidence General [''users''] ([] :: (string \<times> filter_value) list))
       \<le> double_value (calculateConfidence Count [''users''] [(''status'', FStr ''active'')])"
proof -
  let ?e = "[] :: (string \<times> filter_value) list"
  let ?f = "[(''status'', FStr ''active'')]"
  have h1: "bonus_count General [''users''] ?e < bonus_count Count [''users''] ?f"
    by (simp add: bonus_count_def basic_bonus_count_def)
  have h2: "basic_bonus_count General [''users''] ?e < basic_bonus_count Count [''users''] ?f"
    by (simp add: basic_bonus_count_def)
  have h3: "([''users''] \<noteq> [] \<longrightarrow> [''users''] \<noteq> []) \<and> (?e \<noteq> [] \<longrightarrow> ?f \<noteq> [])
      \<and> (General \<noteq> General \<longrightarrow> Count \<noteq> General)
      \<and> (General = Find \<and> [''users''] \<noteq> [] \<longrightarrow> Count = Find)"
    by simp
  note t = confidence_bounded_and_monotone [of General "[''users'']" ?e Count "[''users'']" ?f]
  note u = confidence_bounded_and_monotone [of Count "[''users'']" ?f General "[]" ?e]
  have v1: "double_value (calculateConfidence General [''users''] ?e)
      = 7205759403792794 / 2 ^ 53"
    using t [THEN conjunct2, THEN conjunct2, THEN conjunct1] by simp
  have v2: "double_value (calculateConfidence Count [''users''] ?f) = 1"
    using u [THEN conjunct2, THEN conjunct2, THEN conjunct1] by simp
  have m1: "double_value (calculateConfidence General [''users''] ?e)
      \<le> double_value (calculateConfidence Count [''users''] ?f)"
    by (rule t [THEN conjunct2, THEN conjunct2, THEN conjunct2, THEN conjunct2, THEN conjunct2,
          THEN conjunct1, THEN mp, OF h1])
  have m2: "double_value (calculateConfidence General [''users''] ?e)
      \<le> double_value (calculateConfidence Count [''users''] ?f)"
    by (rule t [THEN conjunct2, THEN conjunct2, THEN conjunct2, THEN conjunct2, THEN conjunct2,
          THEN conjunct2, THEN conjunct1, THEN mp, OF h2])
  have m3: "double_value (calculateConfidence General [''users''] ?e)
      \<le> double_value (calculateConfidence Count [''users''] ?f)"
    by (rule t [THEN conjunct2, THEN conjunct2, THEN conjunct2, THEN conjunct2, THEN conjunct2,
          THEN conjunct2, THEN conjunct2, THEN mp, OF h3])
  from h1 h2 v1 v2 m1 m2 m3 show ?thesis by (intro conjI)
qed

section \<open>Reference counting and the idle sweep\<close>

text \<open>
  Claim C9. Two calls of \<open>getConnection\<close> with the same non-empty connection string, the
  first on a pool without an entry for it and with a successful connect, and no release in
  between, return the same client, and the entry then has reference count 2.
  \<open>releaseConnection\<close> lowers the reference count of the entry by one, closes no client
  and removes no entry. The sweep removes an entry exactly when its reference count is zero
  and it has been idle for longer than the threshold, closes the clients of exactly those
  entries, and keeps every entry whose reference count is not zero.
\<close>

theorem pool_reference_counting:
  "(cs \<noteq> [] \<and> obj_get (pools st) (hashConnectionString cs) = None \<longrightarrow>
      (\<exists>c. fst (getConnection cs t1 True st) = Inr c
          \<and> fst (getConnection cs t2 ok (snd (getConnection cs t1 True st))) = Inr c
          \<and> obj_get (pools (snd (getConnection cs t2 ok (snd (getConnection cs t1 True st)))))
               (hashConnectionString cs)
             = Some \<lparr> client = c, lastUsed = t2, refCount = 2 \<rparr>))
   \<and> (closed (releaseConnection cs now st) = closed st
      \<and> map fst (pools (releaseConnection cs now st)) = map fst (pools st)
      \<and> (\<forall>e. obj_get (pools st) (hashConnectionString cs) = Some e \<longrightarrow>
             obj_get (pools (releaseConnection cs now st)) (hashConnectionString cs)
             = Some (e \<lparr> refCount := refCount e - 1, lastUsed := now \<rparr>)))
   \<and> (\<forall>kp \<in> set (pools st).
         (kp \<notin> set (pools (cleanup now st))
            \<longleftrightarrow> refCount (snd kp) = 0 \<and> now - lastUsed (snd kp) > CONNECTION_POOL_IDLE)
         \<and> (refCount (snd kp) \<noteq> 0 \<longrightarrow> kp \<in> set (pools (cleanup now st))))
   \<and> set (pools (cleanup now st)) \<subseteq> set (pools st)
   \<and> closed (cleanup now st)
       = closed st @ map (\<lambda>kp. client (snd kp))
           (filter (\<lambda>kp. refCount (snd kp) = 0 \<and> now - lastUsed (snd kp) > CONNECTION_POOL_IDLE)
              (pools st))"
proof (intro conjI impI)
  assume a: "cs \<noteq> [] \<and> obj_get (pools st) (hashConnectionString cs) = None"
  let ?st1 = "snd (getConnection cs t1 True st)"
  have g1: "getConnection cs t1 True st =
     (Inr (nextClient st),
      st \<lparr> pools := obj_set (pools st) (hashConnectionString cs)
              \<lparr> client = nextClient st, lastUsed = t1, refCount = 1 \<rparr>,
           nextClient := Suc (nextClient st) \<rparr>)"
    using a by (simp add: getConnection_new)
  then have e1: "obj_get (pools ?st1) (hashConnectionString cs)
      = Some \<lparr> client = nextClient st, lastUsed = t1, refCount = 1 \<rparr>"
    by simp
  have g2: "getConnection cs t2 ok ?st1 =
     (Inr (nextClient st),
      ?st1 \<lparr> pools := obj_set (pools ?st1) (hashConnectionString cs)
              \<lparr> client = nextClient st, lastUsed = t2, refCount = 2 \<rparr> \<rparr>)"
    using a getConnection_existing [OF _ e1, of t2 ok] by simp
  show "\<exists>c. fst (getConnection cs t1 True st) = Inr c
          \<and> fst (getConnection cs t2 ok ?st1) = Inr c
          \<and> obj_get (pools (snd (getConnection cs t2 ok ?st1))) (hashConnectionString cs)
             = Some \<lparr> client = c, lastUsed = t2, refCount = 2 \<rparr>"
    by (rule exI [of _ "nextClient st"]) (simp add: g2, simp add: g1)
next
  show "closed (releaseConnection cs now st) = closed st"
    by (rule releaseConnection_closed)
next
  show "map fst (pools (releaseConnection cs now st)) = map fst (pools st)"
    by (rule releaseConnection_keys)
next
  show "\<forall>e. obj_get (pools st) (hashConnectionString cs) = Some e \<longrightarrow>
             obj_get (pools (releaseConnection cs now st)) (hashConnectionString cs)
             = Some (e \<lparr> refCount := refCount e - 1, lastUsed := now \<rparr>)"
    by (simp add: releaseConnection_existing)
next
  show "\<forall>kp \<in> set (pools st).
         (kp \<notin> set (pools (cleanup now st))
            \<longleftrightarrow> refCount (snd kp) = 0 \<and> now - lastUsed (snd kp) > CONNECTION_POOL_IDLE)
         \<and> (refCount (snd kp) \<noteq> 0 \<longrightarrow> kp \<in> set (pools (cleanup now st)))"
    by (auto simp: cleanup_def idle_and_unused_def)
next
  show "set (pools (cleanup now st)) \<subseteq> set (pools st)"
    by (auto simp: cleanup_def)
next
  show "closed (cleanup now st)
       = closed st @ map (\<lambda>kp. client (snd kp))
           (filter (\<lambda>kp. refCount (snd kp) = 0 \<and> now - lastUsed (snd kp) > CONNECTION_POOL_IDLE)
              (pools st))"
    by (simp add: cleanup_def idle_and_unused_def conj_commute)
qed

theorem pool_reference_counting_witness:
  "\<exists>c. fst (getConnection ''db'' 10 True \<lparr> pools = [], closed = [], nextClient = 0 \<rparr>) = Inr c
      \<and> fst (getConnection ''db'' 20 False (snd (getConnection ''db'' 10 True \<lparr> pools = [], closed = [], nextClient = 0 \<rparr>))) = Inr c
      \<and> obj_get (pools (snd (getConnection ''db'' 20 False
              (snd (getConnection ''db'' 10 True \<lparr> pools = [], closed = [], nextClient = 0 \<rparr>))))) (hashConnectionString ''db'')
         = Some \<lparr> client = c, lastUsed = 20, refCount = 2 \<rparr>"
proof -
  have h: "''db'' \<noteq> [] \<and> obj_get (pools \<lparr> pools = [], closed = [], nextClient = 0 \<rparr>) (hashConnectionString ''db'') = None"
    by simp
  from pool_reference_counting [of "''db''" "\<lparr> pools = [], closed = [], nextClient = 0 \<rparr>" 10 20 False]
  have "''db'' \<noteq> [] \<and> obj_get (pools \<lparr> pools = [], closed = [], nextClient = 0 \<rparr>) (hashConnectionString ''db'') = None \<longrightarrow>
    (\<exists>c. fst (getConnection ''db'' 10 True \<lparr> pools = [], closed = [], nextClient = 0 \<rparr>) = Inr c
      \<and> fst (getConnection ''db'' 20 False (snd (getConnection ''db'' 10 True \<lparr> pools = [], closed = [], nextClient = 0 \<rparr>))) = Inr c
      \<and> obj_get (pools (snd (getConnection ''db'' 20 False
              (snd (getConnection ''db'' 10 True \<lparr> pools = [], closed = [], nextClient = 0 \<rparr>))))) (hashConnectionString ''db'')
         = Some \<lparr> client = c, lastUsed = 20, refCount = 2 \<rparr>)"
    by (rule conjunct1)
  from this h show ?thesis by (rule mp)
qed

section \<open>Releasing more often than acquiring\<close>




end
